theory Spec2Isabelle
  imports Main
begin

section \<open>Strings\<close>

text \<open>
  A Python \<open>str\<close> is a sequence of Unicode code points, and \<open>len\<close>, slicing and
  \<open>+\<close> count code points. It is modelled as a list of code points, so that the
  one-character ellipsis U+2026 of \<open>format_sources\<close> has length one.
\<close>

type_synonym pystr = "nat list"

definition ascii :: "string \<Rightarrow> pystr" where
  "ascii s = map of_char s"

text \<open>\<open>sep.join(xs)\<close>.\<close>

fun join :: "pystr \<Rightarrow> pystr list \<Rightarrow> pystr" where
  "join sep [] = []"
| "join sep [x] = x"
| "join sep (x # y # ys) = x @ sep @ join sep (y # ys)"

text \<open>\<open>xs[i:]\<close>: a negative start counts from the end, and the start is clipped to the list.\<close>

definition slice_from :: "'a list \<Rightarrow> int \<Rightarrow> 'a list" where
  "slice_from xs i =
     (let n = int (length xs);
          start = (if i < 0 then max (n + i) 0 else min i n)
      in drop (nat start) xs)"

section \<open>Session memory (app/server.py)\<close>

definition DEFAULT_CONTEXT_TURNS :: int where
  "DEFAULT_CONTEXT_TURNS = 10"

definition MAX_TURNS_PER_SESSION :: nat where
  "MAX_TURNS_PER_SESSION = 80"

record turn =
  turn_q :: pystr
  turn_a :: pystr

text \<open>
  \<open>_SESSION_TURNS\<close>: a dict from session identifiers to deques, every deque created by
  \<open>_get_history\<close> with \<open>maxlen = _MAX_TURNS_PER_SESSION\<close>. A deque is the list of its
  items, oldest first.
\<close>

type_synonym session_turns = "pystr \<rightharpoonup> turn list"

text \<open>
  \<open>deque.append\<close> on a deque with a \<open>maxlen\<close>: the item is added on the right, and when
  the deque is then longer than \<open>maxlen\<close> one item is discarded from the left.
\<close>

definition deque_append :: "nat \<Rightarrow> 'a list \<Rightarrow> 'a \<Rightarrow> 'a list" where
  "deque_append maxlen xs x =
     (let ys = xs @ [x] in if length ys > maxlen then tl ys else ys)"

definition clamp_int :: "int \<Rightarrow> int \<Rightarrow> int \<Rightarrow> int" where
  "clamp_int x lo hi = max lo (min hi x)"

text \<open>
  \<open>_get_history\<close> returns the session's deque and registers an empty one first when the
  identifier is not yet a key of the store; the updated store is returned with it.
\<close>

definition get_history :: "session_turns \<Rightarrow> pystr \<Rightarrow> turn list \<times> session_turns" where
  "get_history st session_id =
     (case st session_id of
        None \<Rightarrow> ([], st(session_id \<mapsto> []))
      | Some hist \<Rightarrow> (hist, st))"

definition format_turn :: "turn \<Rightarrow> pystr" where
  "format_turn t = ascii ''User: '' @ turn_q t @ [10] @ ascii ''Assistant: '' @ turn_a t"

definition build_context :: "session_turns \<Rightarrow> pystr \<Rightarrow> int \<Rightarrow> pystr \<times> session_turns" where
  "build_context st session_id depth0 =
     (let depth = clamp_int depth0 0 10 in
      if depth \<le> 0 then ([], st)
      else
        (case get_history st session_id of
           (hist, st1) \<Rightarrow>
             if hist = [] then ([], st1)
             else
               (let turns = slice_from hist (- depth);
                    lines = map format_turn turns
                in (join [10, 10] lines, st1))))"

text \<open>
  \<open>_store_turn\<close> appends to the deque that \<open>_get_history\<close> returned, which is the object
  held by the store: the store's entry changes with it.
\<close>

definition store_turn :: "session_turns \<Rightarrow> pystr \<Rightarrow> pystr \<Rightarrow> pystr \<Rightarrow> session_turns" where
  "store_turn st session_id qu an =
     (case get_history st session_id of
        (hist, st1) \<Rightarrow>
          st1(session_id \<mapsto>
            deque_append MAX_TURNS_PER_SESSION hist \<lparr>turn_q = qu, turn_a = an\<rparr>))"

text \<open>The operations on the session store, and a run of them in arrival order.\<close>

datatype mem_op = StoreTurn pystr pystr pystr | BuildContext pystr int

fun apply_mem_op :: "session_turns \<Rightarrow> mem_op \<Rightarrow> session_turns" where
  "apply_mem_op st (StoreTurn sid qu an) = store_turn st sid qu an"
| "apply_mem_op st (BuildContext sid depth) = snd (build_context st sid depth)"

definition run_mem_ops :: "session_turns \<Rightarrow> mem_op list \<Rightarrow> session_turns" where
  "run_mem_ops st ops = foldl apply_mem_op st ops"

text \<open>Appending a list of turns to one session, in order.\<close>

definition store_turns :: "session_turns \<Rightarrow> pystr \<Rightarrow> turn list \<Rightarrow> session_turns" where
  "store_turns st session_id ts =
     foldl (\<lambda>s t. store_turn s session_id (turn_q t) (turn_a t)) st ts"

text \<open>The turns a session holds; none when the identifier is not a key of the store.\<close>

definition turns_of :: "session_turns \<Rightarrow> pystr \<Rightarrow> turn list" where
  "turns_of st session_id = (case st session_id of None \<Rightarrow> [] | Some hist \<Rightarrow> hist)"

text \<open>Turns told apart by a number, to run the store on.\<close>

definition numbered_turns :: "nat \<Rightarrow> turn list" where
  "numbered_turns n = map (\<lambda>i. \<lparr>turn_q = [i], turn_a = []\<rparr>) [0..<n]"

section \<open>Exceptions\<close>

text \<open>
  The exceptions the code raises or receives, as values: \<open>ValueError\<close> and
  \<open>HTTPException\<close> with their arguments, and \<open>External\<close> for whatever an external
  capability (the vector index, the embedding or chat model, the file system) raises,
  with its message.
\<close>

datatype error = ValueError pystr | HTTPException nat pystr | External pystr

section \<open>Documents and the source listing (app/rag/query.py)\<close>

text \<open>
  A document's metadata is a dict. The code reads and writes the keys below; a key that is
  absent (or holds \<open>None\<close>) is \<open>None\<close> here. The loaders write the path keys as strings
  and \<open>page\<close> as an integer, on which \<open>int(page)\<close> is the identity.
\<close>

record metadata =
  md_source :: "pystr option"
  md_file_path :: "pystr option"
  md_path :: "pystr option"
  md_filename :: "pystr option"
  md_page :: "int option"
  md_kb_scope :: "pystr option"

record document =
  page_content :: pystr
  doc_metadata :: metadata

text \<open>\<open>str(n)\<close> for an integer: its decimal digits, with a minus sign when negative.\<close>

fun digits :: "nat \<Rightarrow> pystr" where
  "digits n = (if n < 10 then [48 + n] else digits (n div 10) @ [48 + n mod 10])"

definition str_int :: "int \<Rightarrow> pystr" where
  "str_int i = (if i < 0 then 45 # digits (nat (- i)) else digits (nat i))"

text \<open>The code points for which \<open>str.isspace\<close> holds: the ones \<open>str.strip()\<close> removes.\<close>

definition is_space :: "nat \<Rightarrow> bool" where
  "is_space c \<longleftrightarrow>
     (9 \<le> c \<and> c \<le> 13) \<or> (28 \<le> c \<and> c \<le> 32) \<or> c = 133 \<or> c = 160 \<or> c = 5760 \<or>
     (8192 \<le> c \<and> c \<le> 8202) \<or> c = 8232 \<or> c = 8233 \<or> c = 8239 \<or> c = 8287 \<or> c = 12288"

definition strip :: "pystr \<Rightarrow> pystr" where
  "strip s = rev (dropWhile is_space (rev (dropWhile is_space s)))"

text \<open>\<open>s.replace("\n", " ")\<close>.\<close>

definition replace_newlines :: "pystr \<Rightarrow> pystr" where
  "replace_newlines s = map (\<lambda>c. if c = 10 then 32 else c) s"

definition ELLIPSIS :: nat where
  "ELLIPSIS = 8230"

definition get_source :: "document \<Rightarrow> pystr" where
  "get_source d = (case md_source (doc_metadata d) of None \<Rightarrow> ascii ''unknown'' | Some s \<Rightarrow> s)"

definition make_snippet :: "nat \<Rightarrow> document \<Rightarrow> pystr" where
  "make_snippet max_snippet d =
     (let snippet = strip (replace_newlines (page_content d)) in
      if length snippet > max_snippet then take max_snippet snippet @ [ELLIPSIS] else snippet)"

definition source_key :: "document \<Rightarrow> pystr" where
  "source_key d =
     (case md_page (doc_metadata d) of
        Some page \<Rightarrow> get_source d @ ascii '':'' @ str_int page
      | None \<Rightarrow> get_source d)"

definition source_line :: "nat \<Rightarrow> document \<Rightarrow> pystr" where
  "source_line max_snippet d =
     (case md_page (doc_metadata d) of
        Some page \<Rightarrow>
          ascii ''- '' @ get_source d @ ascii '' (p.'' @ str_int (page + 1) @ ascii ''): '' @
            make_snippet max_snippet d
      | None \<Rightarrow> ascii ''- '' @ get_source d @ ascii '': '' @ make_snippet max_snippet d)"

text \<open>The loop of \<open>format_sources\<close>, with its two accumulators \<open>seen\<close> and \<open>lines\<close>.\<close>

fun format_sources_loop :: "nat \<Rightarrow> document list \<Rightarrow> pystr set \<Rightarrow> pystr list \<Rightarrow> pystr list" where
  "format_sources_loop max_snippet [] seen lines = lines"
| "format_sources_loop max_snippet (d # ds) seen lines =
     (let key = source_key d; line = source_line max_snippet d in
      if key \<in> seen then format_sources_loop max_snippet ds seen lines
      else format_sources_loop max_snippet ds (insert key seen) (lines @ [line]))"

definition format_sources_n :: "nat \<Rightarrow> document list \<Rightarrow> pystr" where
  "format_sources_n max_snippet docs = join [10] (format_sources_loop max_snippet docs {} [])"

text \<open>\<open>format_sources(docs)\<close> with the default \<open>max_snippet = 220\<close>, as \<open>ask\<close> calls it.\<close>

definition format_sources :: "document list \<Rightarrow> pystr" where
  "format_sources docs = format_sources_n 220 docs"

subsection \<open>The source listing as the specification words it\<close>

text \<open>
  The specification's key: the pair of source and page when the page is present, the
  source alone otherwise. A pair and a lone source are never the same key.
\<close>

datatype citation_key = SourcePage pystr int | SourceAlone pystr

definition spec_key :: "document \<Rightarrow> citation_key" where
  "spec_key d =
     (case md_page (doc_metadata d) of
        Some page \<Rightarrow> SourcePage (get_source d) page
      | None \<Rightarrow> SourceAlone (get_source d))"

text \<open>The first element for each key, in first-seen order.\<close>

fun first_by :: "('a \<Rightarrow> 'k) \<Rightarrow> 'a list \<Rightarrow> 'a list" where
  "first_by key [] = []"
| "first_by key (x # xs) = x # first_by key (filter (\<lambda>y. key y \<noteq> key x) xs)"

definition spec_format_sources :: "document list \<Rightarrow> pystr" where
  "spec_format_sources docs = join [10] (map (source_line 220) (first_by spec_key docs))"

text \<open>
  What \<open>load_docs\<close> puts into the index: the pages of a \<open>.pdf\<close> file, each with its
  \<open>page\<close>, and files whose lowered suffix is in \<open>TEXT_EXT\<close>, without a page and with the
  file's path as \<open>source\<close>. So the source of a chunk without a page ends in one of these
  suffixes, in upper or lower case, and never in a digit.
\<close>

definition TEXT_EXT :: "pystr list" where
  "TEXT_EXT = [ascii ''.txt'', ascii ''.md'', ascii ''.tex'', ascii ''.bib'', ascii ''.csv'']"

definition is_digit :: "nat \<Rightarrow> bool" where
  "is_digit c \<longleftrightarrow> 48 \<le> c \<and> c \<le> 57"

definition ends_in_digit :: "pystr \<Rightarrow> bool" where
  "ends_in_digit s = (case rev s of [] \<Rightarrow> False | c # cs \<Rightarrow> is_digit c)"

text \<open>A document with the given source, page and content, and no other metadata.\<close>

definition mk_doc :: "pystr option \<Rightarrow> int option \<Rightarrow> pystr \<Rightarrow> document" where
  "mk_doc src page content =
     \<lparr>page_content = content,
      doc_metadata = \<lparr>md_source = src, md_file_path = None, md_path = None,
                      md_filename = None, md_page = page, md_kb_scope = None\<rparr>\<rparr>"

text \<open>The number a string of decimal digits denotes.\<close>

definition digits_val :: "pystr \<Rightarrow> nat" where
  "digits_val ds = foldl (\<lambda>acc c. 10 * acc + (c - 48)) 0 ds"

text \<open>Three retrieved chunks, two of them from the same page of the same file.\<close>

definition sample_docs :: "document list" where
  "sample_docs =
     [mk_doc (Some (ascii ''doc.pdf'')) (Some 2) (ascii ''one'' @ [10] @ ascii ''two ''),
      mk_doc (Some (ascii ''doc.pdf'')) (Some 2) (ascii ''again''),
      mk_doc (Some (ascii ''notes.md'')) None (ascii ''z'')]"


section \<open>Ingestion-time metadata (app/rag/ingest.py)\<close>

text \<open>Truth value of a metadata entry: \<open>None\<close> and the empty string are false.\<close>

definition truthy :: "pystr option \<Rightarrow> bool" where
  "truthy v = (case v of None \<Rightarrow> False | Some s \<Rightarrow> s \<noteq> [])"

text \<open>\<open>a or b\<close>: the first operand when it is true, the second otherwise.\<close>

definition py_or :: "pystr option \<Rightarrow> pystr option \<Rightarrow> pystr option" where
  "py_or a b = (if truthy a then a else b)"

text \<open>
  The first step of the loop body of \<open>build_index\<close>: \<open>source\<close> is set from the chain of
  \<open>or\<close> over the four candidate keys, when the chain's value is not \<open>None\<close>.
\<close>

definition normalize_source :: "metadata \<Rightarrow> metadata" where
  "normalize_source md =
     (let src = py_or (py_or (py_or (md_source md) (md_file_path md)) (md_path md))
                  (md_filename md)
      in case src of None \<Rightarrow> md | Some s \<Rightarrow> md\<lparr>md_source := Some s\<rparr>)"

text \<open>
  \<open>str.lower\<close> on the letters A to Z. The code compares the lowered first path segment
  with \<open>internal\<close> and \<open>public\<close>, and the lowered file suffix with the entries of
  \<open>TEXT_EXT\<close>; no code point above 127 lowers to a letter of these words, so code points
  above 127 are left as they are.
\<close>

definition lower :: "pystr \<Rightarrow> pystr" where
  "lower s = map (\<lambda>c. if 65 \<le> c \<and> c \<le> 90 then c + 32 else c) s"

text \<open>
  The test of \<open>load_docs\<close> for a text file, on the path as a string: it ends in a
  suffix that, lowered, is an entry of \<open>TEXT_EXT\<close>.
\<close>

definition has_text_suffix :: "pystr \<Rightarrow> bool" where
  "has_text_suffix s =
     list_ex (\<lambda>ext. length ext \<le> length s \<and> lower (drop (length s - length ext) s) = ext)
       TEXT_EXT"

text \<open>
  Paths are the lists of their segments below the file system root.
  \<open>p.relative_to(root)\<close> is the rest of \<open>p\<close> below \<open>root\<close>, and raises \<open>ValueError\<close>
  when \<open>p\<close> is not below \<open>root\<close>.
\<close>

definition relative_to :: "pystr list \<Rightarrow> pystr list \<Rightarrow> error + pystr list" where
  "relative_to p root =
     (if take (length root) p = root then Inr (drop (length root) p)
      else Inl (ValueError (ascii ''not in the subpath'')))"

text \<open>
  The second step: the scope tag. \<open>Path(s).resolve()\<close> depends on the file system and the
  working directory and may raise; it is the parameter \<open>resolve\<close>. \<open>kb_root\<close> is the
  resolved corpus root. Every exception of the \<open>try\<close> block leaves the scope
  \<open>unknown\<close>.
\<close>

definition kb_scope :: "(pystr \<Rightarrow> error + pystr list) \<Rightarrow> pystr list \<Rightarrow> metadata \<Rightarrow> pystr" where
  "kb_scope resolve kb_root md =
     (case resolve (case md_source md of None \<Rightarrow> [] | Some s \<Rightarrow> s) of
        Inl e \<Rightarrow> ascii ''unknown''
      | Inr p \<Rightarrow>
          (case relative_to p kb_root of
             Inl e \<Rightarrow> ascii ''unknown''
           | Inr rel \<Rightarrow>
               (let top = (if rel \<noteq> [] then hd rel else []) in
                if lower top = ascii ''internal'' then ascii ''internal''
                else if lower top = ascii ''public'' then ascii ''public''
                else ascii ''unknown'')))"

text \<open>The loop body of \<open>build_index\<close> on one document's metadata.\<close>

definition tag_metadata :: "(pystr \<Rightarrow> error + pystr list) \<Rightarrow> pystr list \<Rightarrow> metadata \<Rightarrow> metadata" where
  "tag_metadata resolve kb_root md =
     (let md1 = normalize_source md in md1\<lparr>md_kb_scope := Some (kb_scope resolve kb_root md1)\<rparr>)"

text \<open>Metadata with no key set, and with the source set only.\<close>

definition empty_metadata :: metadata where
  "empty_metadata =
     \<lparr>md_source = None, md_file_path = None, md_path = None, md_filename = None,
      md_page = None, md_kb_scope = None\<rparr>"

definition source_metadata :: "pystr \<Rightarrow> metadata" where
  "source_metadata s = empty_metadata\<lparr>md_source := Some s\<rparr>"

text \<open>
  A file system for trying the scope tag on: the corpus root is \<open>/srv/kb\<close>, an absolute
  path resolves to its segments, and anything else fails to resolve.
\<close>

fun split_path :: "pystr \<Rightarrow> pystr \<Rightarrow> pystr list" where
  "split_path acc [] = (if acc = [] then [] else [acc])"
| "split_path acc (c # cs) =
     (if c = 47 then (if acc = [] then split_path [] cs else acc # split_path [] cs)
      else split_path (acc @ [c]) cs)"

definition sample_resolve :: "pystr \<Rightarrow> error + pystr list" where
  "sample_resolve s =
     (case s of
        [] \<Rightarrow> Inl (External (ascii ''cannot resolve''))
      | c # cs \<Rightarrow> if c = 47 then Inr (split_path [] cs) else Inl (External (ascii ''cannot resolve'')))"

definition sample_root :: "pystr list" where
  "sample_root = [ascii ''srv'', ascii ''kb'']"

section \<open>The orchestrator (app/llm.py, app/rag/query.py)\<close>

text \<open>\<open>SETTINGS\<close>: the model names.\<close>

definition thesis_model :: pystr where
  "thesis_model = ascii ''typewriter-thesis''"

definition python_model :: pystr where
  "python_model = ascii ''typewriter-python''"

definition reviewer_model :: pystr where
  "reviewer_model = ascii ''typewriter-thesis''"

text \<open>A \<open>ChatOllama\<close> configuration; the temperature in hundredths.\<close>

record chat_model =
  model_name :: pystr
  temperature_pct :: nat

definition get_chat :: "pystr \<Rightarrow> error + chat_model" where
  "get_chat agent =
     (if agent = ascii ''thesis'' then Inr \<lparr>model_name = thesis_model, temperature_pct = 25\<rparr>
      else if agent = ascii ''python'' then Inr \<lparr>model_name = python_model, temperature_pct = 20\<rparr>
      else if agent = ascii ''reviewer'' then
        Inr \<lparr>model_name = reviewer_model, temperature_pct = 20\<rparr>
      else Inl (ValueError (ascii ''Unknown agent: '' @ agent)))"

definition THESIS_HINT :: pystr where
  "THESIS_HINT =
     ascii ''Use ONLY the provided context. If context is insufficient, output [MISSING INFO] '' @
     ascii ''and list exactly what is missing. Do not invent citations or data.''"

definition SYSTEM_HINT :: "pystr \<rightharpoonup> pystr" where
  "SYSTEM_HINT = map_of
     [(ascii ''thesis'', THESIS_HINT),
      (ascii ''reviewer'',
       ascii ''Use ONLY the provided context/text. Be strict and specific. '' @
       ascii ''Do not invent facts or citations.''),
      (ascii ''python'',
       ascii ''Return runnable Python code only. Use the provided context when relevant. '' @
       ascii ''If you must assume something, write it as a Python comment starting with: # ASSUMPTION:'')]"

text \<open>
  The external capabilities, each of which may raise: retrieval (the vector index with its
  embedding function, asked for \<open>k\<close> chunks out of \<open>fetch_k\<close> candidates) and generation
  (the chat model, given the system message and the prompt). \<open>http_exception_str\<close> is the
  web framework's \<open>str\<close> of an \<open>HTTPException\<close>.
\<close>

record capabilities =
  retrieve :: "pystr \<Rightarrow> int \<Rightarrow> int \<Rightarrow> error + document list"
  generate :: "chat_model \<Rightarrow> pystr \<Rightarrow> pystr \<Rightarrow> error + pystr"
  http_exception_str :: "nat \<Rightarrow> pystr \<Rightarrow> pystr"

text \<open>The calls made to the external capabilities, in order.\<close>

datatype call = Retrieval pystr int int | Generation chat_model pystr pystr

text \<open>
  \<open>ask\<close> returns the answer and the source listing, or the exception that ended it, and
  the log of calls extended by the calls it made.
\<close>

definition ask ::
  "capabilities \<Rightarrow> pystr \<Rightarrow> pystr \<Rightarrow> int \<Rightarrow> call list \<Rightarrow> (error + pystr \<times> pystr) \<times> call list" where
  "ask caps agent question k log =
     (let fetch_k = max 24 (k * 3);
          log1 = log @ [Retrieval question k fetch_k] in
      case retrieve caps question k fetch_k of
        Inl e \<Rightarrow> (Inl e, log1)
      | Inr docs \<Rightarrow>
          (let context = join [10, 10] (map page_content docs);
               sys = (case SYSTEM_HINT agent of
                        Some hint \<Rightarrow> hint
                      | None \<Rightarrow> THESIS_HINT);
               prompt = ascii ''Context:'' @ [10] @ context @ [10, 10] @
                        ascii ''User request:'' @ [10] @ question @ [10] in
           case get_chat agent of
             Inl e \<Rightarrow> (Inl e, log1)
           | Inr llm \<Rightarrow>
               (let log2 = log1 @ [Generation llm sys prompt] in
                case generate caps llm sys prompt of
                  Inl e \<Rightarrow> (Inl e, log2)
                | Inr content \<Rightarrow> (Inr (content, format_sources docs), log2))))"

section \<open>The endpoints and the streaming emitter (app/server.py)\<close>

text \<open>\<open>range(0, stop, step)\<close> for a positive step.\<close>

definition range_step :: "nat \<Rightarrow> nat \<Rightarrow> nat list" where
  "range_step stop step = map (\<lambda>j. j * step) [0..<(stop + step - 1) div step]"

text \<open>
  \<open>_chunk_text\<close>, for a size that is not negative: the slices \<open>s[i : i + size]\<close> for \<open>i\<close>
  in \<open>range(0, len(s), size)\<close>; \<open>range\<close> raises \<open>ValueError\<close> on the step 0.
\<close>

definition chunk_text :: "pystr \<Rightarrow> nat \<Rightarrow> error + pystr list" where
  "chunk_text s chunk_size =
     (if s = [] then Inr []
      else if chunk_size = 0 then Inl (ValueError (ascii ''range() arg 3 must not be zero''))
      else Inr (map (\<lambda>i. take chunk_size (drop i s)) (range_step (length s) chunk_size)))"

record ask_request =
  req_agent :: pystr
  req_question :: pystr
  req_k :: int
  req_session_id :: "pystr option"

text \<open>
  The state the endpoints run in: the session store, the log of calls to the external
  capabilities, and what \<open>index_ready()\<close> does on the file system as it is: it returns
  whether the index directory exists and is not empty, or it raises what \<open>iterdir\<close> raises
  (the path is not a directory, or cannot be read).
\<close>

record server_state =
  mem :: session_turns
  calls :: "call list"
  index_ready :: "error + bool"

datatype event = Delta pystr | Done pystr | ErrorEvent pystr

text \<open>
  What an endpoint answers: the JSON body with \<open>ok\<close> true or false, the HTTP error the
  framework makes of an exception that leaves the handler (the status and detail of an
  \<open>HTTPException\<close>, the status 500 for any other exception), or the events of the NDJSON
  stream.
\<close>

datatype response =
  JsonOk pystr pystr | JsonFail pystr | HttpError nat pystr | StreamingResponse "event list"

definition AGENT_MSG :: pystr where
  "AGENT_MSG = ascii ''agent must be thesis/python/reviewer''"

definition SERVER_ERROR_MSG :: pystr where
  "SERVER_ERROR_MSG = ascii ''Internal Server Error''"

definition INDEX_MSG :: pystr where
  "INDEX_MSG =
     ascii ''Vector index not found. Run: python main.py ingest (from project root), '' @
     ascii ''then reload the page.''"

definition valid_agents :: "pystr set" where
  "valid_agents = {ascii ''thesis'', ascii ''python'', ascii ''reviewer''}"

text \<open>\<open>str(e)\<close> of a caught exception.\<close>

definition str_exc :: "capabilities \<Rightarrow> error \<Rightarrow> pystr" where
  "str_exc caps e =
     (case e of
        ValueError msg \<Rightarrow> msg
      | External msg \<Rightarrow> msg
      | HTTPException code detail \<Rightarrow> http_exception_str caps code detail)"

text \<open>
  The question given to the model: with a session identifier that is not empty and a
  context that is not empty, the question framed by the conversation context. Both
  endpoints compute it the same way.
\<close>

definition question_for_model :: "session_turns \<Rightarrow> ask_request \<Rightarrow> pystr \<times> session_turns" where
  "question_for_model st req =
     (case req_session_id req of
        None \<Rightarrow> (req_question req, st)
      | Some session_id \<Rightarrow>
          if session_id = [] then (req_question req, st)
          else
            (case build_context st session_id DEFAULT_CONTEXT_TURNS of
               (ctx, st1) \<Rightarrow>
                 if ctx \<noteq> [] then
                   (ascii ''You are continuing an ongoing conversation. Use the context below to stay consistent.'' @
                    [10, 10] @
                    ascii ''=== Conversation context (most recent last) ==='' @ [10] @
                    ctx @ [10] @
                    ascii ''=== End context ==='' @ [10, 10] @
                    ascii ''User: '' @ req_question req, st1)
                 else (req_question req, st1)))"

text \<open>\<open>_store_turn\<close> when the request carries a session identifier that is not empty.\<close>

definition store_if_session :: "session_turns \<Rightarrow> ask_request \<Rightarrow> pystr \<Rightarrow> session_turns" where
  "store_if_session st req answer =
     (case req_session_id req of
        None \<Rightarrow> st
      | Some session_id \<Rightarrow>
          if session_id = [] then st else store_turn st session_id (req_question req) answer)"

text \<open>
  \<open>api_ask\<close>: the whole body is inside \<open>try\<close>, and \<open>except Exception\<close> turns every
  exception, the \<open>HTTPException\<close> of the agent check and an exception of
  \<open>index_ready()\<close> included, into the failing JSON body.
\<close>

definition api_ask :: "capabilities \<Rightarrow> server_state \<Rightarrow> ask_request \<Rightarrow> response \<times> server_state" where
  "api_ask caps st req =
     (if req_agent req \<notin> valid_agents
      then (JsonFail (str_exc caps (HTTPException 400 AGENT_MSG)), st)
      else
        (case index_ready st of
           Inl e \<Rightarrow> (JsonFail (str_exc caps e), st)
         | Inr ready \<Rightarrow>
             if \<not> ready then (JsonFail INDEX_MSG, st)
             else
               (case question_for_model (mem st) req of
                  (question, mem1) \<Rightarrow>
                    (case ask caps (req_agent req) question (req_k req) (calls st) of
                       (Inl e, log) \<Rightarrow>
                         (JsonFail (str_exc caps e), st\<lparr>mem := mem1, calls := log\<rparr>)
                     | (Inr (answer, sources), log) \<Rightarrow>
                         (JsonOk answer sources,
                          st\<lparr>mem := store_if_session mem1 req answer, calls := log\<rparr>)))))"

text \<open>
  The generator \<open>gen\<close> of the streaming endpoint, run to its end: the events it yields
  and the state it leaves.
\<close>

definition gen :: "capabilities \<Rightarrow> server_state \<Rightarrow> ask_request \<Rightarrow> pystr \<Rightarrow> event list \<times> server_state" where
  "gen caps st req question =
     (case ask caps (req_agent req) question (req_k req) (calls st) of
        (Inl e, log) \<Rightarrow> ([ErrorEvent (str_exc caps e)], st\<lparr>calls := log\<rparr>)
      | (Inr (answer, sources), log) \<Rightarrow>
          (let st1 = st\<lparr>mem := store_if_session (mem st) req answer, calls := log\<rparr> in
           case chunk_text answer 140 of
             Inl e \<Rightarrow> ([ErrorEvent (str_exc caps e)], st1)
           | Inr chunks \<Rightarrow> (map Delta chunks @ [Done sources], st1)))"

text \<open>
  \<open>api_ask_stream\<close>: the agent check and the call of \<open>index_ready()\<close> are outside any
  \<open>try\<close>, so the \<open>HTTPException\<close> of the one and an exception of the other leave the
  handler.
\<close>

definition api_ask_stream ::
  "capabilities \<Rightarrow> server_state \<Rightarrow> ask_request \<Rightarrow> response \<times> server_state" where
  "api_ask_stream caps st req =
     (if req_agent req \<notin> valid_agents then (HttpError 400 AGENT_MSG, st)
      else
        (case index_ready st of
           Inl e \<Rightarrow> (HttpError 500 SERVER_ERROR_MSG, st)
         | Inr ready \<Rightarrow>
             if \<not> ready then (StreamingResponse [ErrorEvent INDEX_MSG], st)
             else
               (case question_for_model (mem st) req of
                  (question, mem1) \<Rightarrow>
                    (case gen caps (st\<lparr>mem := mem1\<rparr>) req question of
                       (events, st1) \<Rightarrow> (StreamingResponse events, st1)))))"

text \<open>Capabilities to run the endpoints on: one chunk retrieved, a fixed answer.\<close>

definition sample_caps :: capabilities where
  "sample_caps =
     \<lparr>retrieve = (\<lambda>question k fetch_k.
         Inr [mk_doc (Some (ascii ''doc.pdf'')) (Some 2) (ascii ''alpha'')]),
      generate = (\<lambda>llm sys prompt. Inr (ascii ''An answer.'')),
      http_exception_str = (\<lambda>code detail. str_int (int code) @ ascii '': '' @ detail)\<rparr>"

text \<open>Capabilities whose retrieval raises.\<close>

definition failing_caps :: capabilities where
  "failing_caps = sample_caps\<lparr>retrieve := (\<lambda>question k fetch_k. Inl (External (ascii ''index unavailable'')))\<rparr>"

definition sample_request :: "pystr \<Rightarrow> ask_request" where
  "sample_request agent =
     \<lparr>req_agent = agent, req_question = ascii ''Why?'', req_k = 4,
      req_session_id = Some (ascii ''s1'')\<rparr>"

definition sample_state :: "bool \<Rightarrow> server_state" where
  "sample_state ready = \<lparr>mem = Map.empty, calls = [], index_ready = Inr ready\<rparr>"

text \<open>A state in which the index path is a file, so that \<open>iterdir\<close> raises.\<close>

definition broken_index_state :: server_state where
  "broken_index_state =
     \<lparr>mem = Map.empty, calls = [], index_ready = Inl (External (ascii ''Not a directory''))\<rparr>"

section \<open>Session memory: the cap, the context window and the frame\<close>

lemma deque_append_last:
  "length xs \<le> n \<Longrightarrow> deque_append n xs x = drop (Suc (length xs) - n) (xs @ [x])"
proof (cases "length xs = n")
  case True
  then show ?thesis by (cases xs) (simp_all add: deque_append_def Let_def)
next
  case False
  assume "length xs \<le> n"
  with False have "length xs < n" by simp
  then show ?thesis by (simp add: deque_append_def Let_def)
qed

lemma deque_append_length: "length xs \<le> n \<Longrightarrow> length (deque_append n xs x) \<le> n"
  by (simp add: deque_append_last)

lemma turns_of_store_turn:
  "turns_of (store_turn st sid qu an) sid =
     deque_append MAX_TURNS_PER_SESSION (turns_of st sid) \<lparr>turn_q = qu, turn_a = an\<rparr>"
  by (simp add: store_turn_def get_history_def turns_of_def split: option.splits)

lemma store_turn_other:
  "sid' \<noteq> sid \<Longrightarrow> store_turn st sid qu an sid' = st sid'"
  by (simp add: store_turn_def get_history_def split: option.splits)

lemma store_turn_same:
  "store_turn st sid qu an sid =
     Some (deque_append MAX_TURNS_PER_SESSION (turns_of st sid) \<lparr>turn_q = qu, turn_a = an\<rparr>)"
  by (simp add: store_turn_def get_history_def turns_of_def split: option.splits)

lemma store_turns_Cons:
  "store_turns st sid (t # ts) = store_turns (store_turn st sid (turn_q t) (turn_a t)) sid ts"
  by (simp add: store_turns_def)

lemma turn_eta: "\<lparr>turn_q = turn_q t, turn_a = turn_a t\<rparr> = (t::turn)"
  by simp

lemma turns_of_store_turns:
  "length (turns_of st sid) \<le> 80 \<Longrightarrow>
   turns_of (store_turns st sid ts) sid =
     drop (length (turns_of st sid @ ts) - 80) (turns_of st sid @ ts)"
proof (induction ts arbitrary: st)
  case Nil
  then show ?case by (simp add: store_turns_def)
next
  case (Cons t ts)
  let ?h = "turns_of st sid"
  let ?st1 = "store_turn st sid (turn_q t) (turn_a t)"
  have h1: "turns_of ?st1 sid = drop (Suc (length ?h) - 80) (?h @ [t])"
    using Cons.prems
    by (simp only: turns_of_store_turn MAX_TURNS_PER_SESSION_def deque_append_last turn_eta)
  have l1: "length (turns_of ?st1 sid) \<le> 80"
    using Cons.prems by (simp add: h1)
  have "turns_of (store_turns st sid (t # ts)) sid =
        drop (length (turns_of ?st1 sid @ ts) - 80) (turns_of ?st1 sid @ ts)"
    unfolding store_turns_Cons by (rule Cons.IH[OF l1])
  also have "\<dots> = drop (length (?h @ t # ts) - 80) (?h @ t # ts)"
  proof (cases "length ?h = 80")
    case True
    then show ?thesis by (cases ?h) (simp_all add: h1)
  next
    case False
    with Cons.prems have "length ?h < 80" by simp
    then show ?thesis by (simp add: h1)
  qed
  finally show ?case .
qed

lemma store_turns_is_Some:
  "ts \<noteq> [] \<Longrightarrow> store_turns st sid ts sid = Some (turns_of (store_turns st sid ts) sid)"
proof (induction ts arbitrary: st)
  case Nil
  then show ?case by simp
next
  case (Cons t ts)
  show ?case
  proof (cases "ts = []")
    case True
    then show ?thesis by (simp add: store_turns_def store_turn_same turns_of_def)
  next
    case False
    from Cons.IH[OF False] show ?thesis by (simp add: store_turns_Cons)
  qed
qed

lemma snd_get_history:
  "snd (get_history st sid) = (case st sid of None \<Rightarrow> st(sid \<mapsto> []) | Some h \<Rightarrow> st)"
  by (simp add: get_history_def split: option.splits)

lemma fst_get_history: "fst (get_history st sid) = turns_of st sid"
  by (simp add: get_history_def turns_of_def split: option.splits)

lemma snd_build_context:
  "snd (build_context st sid depth) =
     (if clamp_int depth 0 10 \<le> 0 then st
      else (case st sid of None \<Rightarrow> st(sid \<mapsto> []) | Some h \<Rightarrow> st))"
  by (simp add: build_context_def Let_def get_history_def split: option.splits)

lemma store_turn_capped:
  assumes "\<And>s h. st s = Some h \<Longrightarrow> length h \<le> 80"
    and "store_turn st sid qu an s = Some h"
  shows "length h \<le> 80"
proof (cases "s = sid")
  case True
  have "length (turns_of st sid) \<le> 80"
    using assms(1) by (simp add: turns_of_def split: option.splits)
  then have "length (deque_append 80 (turns_of st sid) \<lparr>turn_q = qu, turn_a = an\<rparr>) \<le> 80"
    by (rule deque_append_length)
  with assms(2) True show ?thesis
    by (simp add: store_turn_same MAX_TURNS_PER_SESSION_def)
next
  case False
  with assms show ?thesis by (simp add: store_turn_other)
qed

lemma build_context_capped:
  assumes "\<And>s h. st s = Some h \<Longrightarrow> length h \<le> 80"
    and "snd (build_context st sid depth) s = Some h"
  shows "length h \<le> 80"
  using assms by (auto simp: snd_build_context split: if_splits option.splits)

lemma apply_mem_op_capped:
  assumes "\<And>s h. st s = Some h \<Longrightarrow> length h \<le> 80"
    and "apply_mem_op st op s = Some h"
  shows "length h \<le> 80"
proof (cases op)
  case (StoreTurn sid qu an)
  with assms(2) have "store_turn st sid qu an s = Some h" by simp
  with assms(1) show ?thesis by (rule store_turn_capped)
next
  case (BuildContext sid depth)
  with assms(2) have "snd (build_context st sid depth) s = Some h" by simp
  with assms(1) show ?thesis by (rule build_context_capped)
qed

lemma run_mem_ops_capped:
  "(\<And>s h. st s = Some h \<Longrightarrow> length h \<le> 80) \<Longrightarrow>
   run_mem_ops st ops s = Some h \<Longrightarrow> length h \<le> 80"
proof (induction ops arbitrary: st)
  case Nil
  then show ?case by (simp add: run_mem_ops_def)
next
  case (Cons op ops)
  have "\<And>s h. apply_mem_op st op s = Some h \<Longrightarrow> length h \<le> 80"
    using Cons.prems(1) by (rule apply_mem_op_capped)
  moreover have "run_mem_ops (apply_mem_op st op) ops s = Some h"
    using Cons.prems(2) by (simp add: run_mem_ops_def)
  ultimately show ?case by (rule Cons.IH)
qed

text \<open>
  Claim C1. Whatever operations run on the store from its initial empty state, no session
  holds more than 80 turns. Appending turns \<open>ts\<close> to a session that holds \<open>h\<close> leaves the
  last 80 of \<open>h @ ts\<close>, in arrival order: the oldest are evicted first. In particular 85
  turns appended to a new session leave exactly 80, the 5 oldest gone.
\<close>

theorem session_cap_fifo:
  "(\<forall>ops sid h. run_mem_ops Map.empty ops sid = Some h \<longrightarrow> length h \<le> 80) \<and>
   (\<forall>st sid ts. length (turns_of st sid) \<le> 80 \<longrightarrow>
      turns_of (store_turns st sid ts) sid =
        drop (length (turns_of st sid @ ts) - 80) (turns_of st sid @ ts)) \<and>
   (\<forall>st sid ts. st sid = None \<and> length ts = 85 \<longrightarrow>
      store_turns st sid ts sid = Some (drop 5 ts) \<and> length (drop 5 ts) = 80)"
proof (intro conjI allI impI)
  fix ops sid h
  assume "run_mem_ops Map.empty ops sid = Some h"
  then show "length h \<le> 80"
    by (rule run_mem_ops_capped[rotated]) simp
next
  fix st :: session_turns and sid ts
  assume "length (turns_of st sid) \<le> 80"
  then show "turns_of (store_turns st sid ts) sid =
        drop (length (turns_of st sid @ ts) - 80) (turns_of st sid @ ts)"
    by (rule turns_of_store_turns)
next
  fix st :: session_turns and sid and ts :: "turn list"
  assume a: "st sid = None \<and> length ts = 85"
  then have e: "turns_of st sid = []" by (simp add: turns_of_def)
  from a have ne: "ts \<noteq> []" by auto
  have "turns_of (store_turns st sid ts) sid = drop 5 ts"
    using turns_of_store_turns[of st sid ts] a by (simp add: e)
  with store_turns_is_Some[OF ne, of st sid]
  show "store_turns st sid ts sid = Some (drop 5 ts)" by simp
next
  fix st :: session_turns and sid and ts :: "turn list"
  assume "st sid = None \<and> length ts = 85"
  then show "length (drop 5 ts) = 80" by simp
qed

text \<open>The cap at work: a short run of operations, and 85 numbered turns of which 5 to 84 stay.\<close>

theorem session_cap_fifo_witness:
  "run_mem_ops Map.empty [StoreTurn [115] [113] [97], BuildContext [116] 3] [115]
     = Some [\<lparr>turn_q = [113], turn_a = [97]\<rparr>] \<and>
   length [\<lparr>turn_q = [113], turn_a = [97]\<rparr>] \<le> 80 \<and>
   length (numbered_turns 85) = 85 \<and>
   store_turns Map.empty [115] (numbered_turns 85) [115] = Some (drop 5 (numbered_turns 85)) \<and>
   length (drop 5 (numbered_turns 85)) = 80 \<and>
   hd (drop 5 (numbered_turns 85)) = \<lparr>turn_q = [5], turn_a = []\<rparr>"
proof -
  have r: "run_mem_ops Map.empty [StoreTurn [115] [113] [97], BuildContext [116] 3] [115]
     = Some [\<lparr>turn_q = [113], turn_a = [97]\<rparr>]"
    by (simp add: run_mem_ops_def store_turn_def get_history_def deque_append_def
        MAX_TURNS_PER_SESSION_def snd_build_context clamp_int_def)
  have l: "length (numbered_turns 85) = 85" by (simp add: numbered_turns_def)
  have n: "Map.empty [115::nat] = (None :: turn list option) \<and> length (numbered_turns 85) = 85"
    using l by simp
  have h: "hd (drop 5 (numbered_turns 85)) = \<lparr>turn_q = [5], turn_a = []\<rparr>"
    by (simp add: numbered_turns_def hd_drop_conv_nth del: upt_rec_numeral)
  note c1 = session_cap_fifo[THEN conjunct1, rule_format, OF r]
  note c3 = session_cap_fifo[THEN conjunct2, THEN conjunct2, rule_format, OF n]
  from r c1 l c3 h show ?thesis by (intro conjI) (rule r c1 l h c3[THEN conjunct1] c3[THEN conjunct2])+
qed

lemma clamp_int_cases:
  "clamp_int depth 0 10 = (if depth < 0 then 0 else if depth > 10 then 10 else depth)"
  by (simp add: clamp_int_def)

lemma slice_from_neg:
  "0 < d \<Longrightarrow> slice_from xs (- d) = drop (length xs - min (nat d) (length xs)) xs"
  by (auto simp: slice_from_def Let_def max_def min_def nat_diff_distrib' intro: arg_cong[where f="\<lambda>n. drop n xs"])

lemma fst_build_context:
  "fst (build_context st sid depth) =
     (let d = nat (clamp_int depth 0 10); h = turns_of st sid in
      if d = 0 \<or> h = [] then []
      else join [10, 10] (map format_turn (drop (length h - min d (length h)) h)))"
proof (cases "clamp_int depth 0 10 \<le> 0")
  case True
  then show ?thesis by (simp add: build_context_def Let_def)
next
  case False
  then have pos: "0 < clamp_int depth 0 10" by simp
  obtain hist st1 where g: "get_history st sid = (hist, st1)" by (cases "get_history st sid")
  then have h: "hist = turns_of st sid" using fst_get_history[of st sid] by simp
  show ?thesis
    using False pos by (simp add: build_context_def Let_def g h slice_from_neg)
qed

lemma build_context_clamped:
  "build_context st sid depth = build_context st sid (clamp_int depth 0 10)"
  by (simp add: build_context_def clamp_int_def)

text \<open>
  Claim C5. \<open>build_context\<close> clamps the depth into 0..10, so that depth 15 behaves as
  depth 10; it returns the empty string when the clamped depth is 0 or the session has no
  turns, and otherwise the most recent \<open>min depth (length history)\<close> turns, oldest of
  the window first, each as a question line and an answer line, joined by a blank line.
\<close>

theorem build_context_window:
  "fst (build_context st sid depth) =
     (let d = nat (clamp_int depth 0 10); h = turns_of st sid in
      if d = 0 \<or> h = [] then []
      else join [10, 10] (map format_turn (drop (length h - min d (length h)) h))) \<and>
   clamp_int depth 0 10 = (if depth < 0 then 0 else if depth > 10 then 10 else depth) \<and>
   build_context st sid depth = build_context st sid (clamp_int depth 0 10) \<and>
   build_context st sid 15 = build_context st sid 10 \<and>
   fst (build_context st sid 0) = [] \<and>
   format_turn t = ascii ''User: '' @ turn_q t @ [10] @ ascii ''Assistant: '' @ turn_a t"
proof (intro conjI)
  show "build_context st sid 15 = build_context st sid 10"
    using build_context_clamped[of st sid 15] by (simp add: clamp_int_def)
  show "fst (build_context st sid 0) = []"
    by (simp add: build_context_def clamp_int_def)
qed (rule fst_build_context clamp_int_cases build_context_clamped format_turn_def)+

text \<open>Three turns held, depth 2: the last two turns, the older of them first.\<close>

theorem build_context_window_witness:
  "fst (build_context
         (Map.empty([115] \<mapsto> [\<lparr>turn_q = [49], turn_a = [50]\<rparr>, \<lparr>turn_q = [51], turn_a = [52]\<rparr>,
                                \<lparr>turn_q = [53], turn_a = [54]\<rparr>])) [115] 2)
     = ascii ''User: '' @ [51, 10] @ ascii ''Assistant: '' @ [52, 10, 10] @
       ascii ''User: '' @ [53, 10] @ ascii ''Assistant: '' @ [54]"
  using build_context_window[of
      "Map.empty([115] \<mapsto> [\<lparr>turn_q = [49], turn_a = [50]\<rparr>, \<lparr>turn_q = [51], turn_a = [52]\<rparr>,
                                \<lparr>turn_q = [53], turn_a = [54]\<rparr>])" "[115]" 2]
  by (simp add: clamp_int_def turns_of_def format_turn_def)

text \<open>
  Claim C6 as stated fails: for a session identifier that is not yet a key of the store and
  a positive depth, \<open>_get_history\<close> registers an empty turn sequence, so the mapping
  changes.
\<close>

theorem build_context_creates_session: "snd (build_context Map.empty [115] 10) \<noteq> Map.empty"
proof
  assume "snd (build_context Map.empty [115] 10) = Map.empty"
  then have "snd (build_context Map.empty [115] 10) [115] = (None :: turn list option)" by simp
  then show False by (simp add: build_context_def clamp_int_def get_history_def)
qed

text \<open>
  Claim C6, amended. \<open>build_context\<close> changes no turn sequence: every session holds the
  same turns after the call as before it, and every key keeps its entry. The store is
  unchanged when the identifier is already a key or the depth is not positive; for an
  identifier that is not yet a key and a positive depth, the only change is that the
  identifier becomes a key with an empty turn sequence.
\<close>

theorem build_context_frame:
  "(\<forall>sid'. turns_of (snd (build_context st sid depth)) sid' = turns_of st sid') \<and>
   (\<forall>sid' h. st sid' = Some h \<longrightarrow> snd (build_context st sid depth) sid' = Some h) \<and>
   (sid \<in> dom st \<or> depth \<le> 0 \<longrightarrow> snd (build_context st sid depth) = st) \<and>
   (sid \<notin> dom st \<and> 1 \<le> depth \<longrightarrow> snd (build_context st sid depth) = st(sid \<mapsto> []))"
  by (auto simp: snd_build_context clamp_int_def turns_of_def split: option.splits)

text \<open>A store with one session: read for that session, and read for a new one.\<close>

theorem build_context_frame_witness:
  "snd (build_context (Map.empty([115] \<mapsto> [\<lparr>turn_q = [49], turn_a = [50]\<rparr>])) [115] 3)
     = Map.empty([115] \<mapsto> [\<lparr>turn_q = [49], turn_a = [50]\<rparr>]) \<and>
   snd (build_context (Map.empty([115] \<mapsto> [\<lparr>turn_q = [49], turn_a = [50]\<rparr>])) [116] 3)
     = Map.empty([115] \<mapsto> [\<lparr>turn_q = [49], turn_a = [50]\<rparr>], [116] \<mapsto> []) \<and>
   snd (build_context (Map.empty([115] \<mapsto> [\<lparr>turn_q = [49], turn_a = [50]\<rparr>])) [116] 3) [115]
     = Some [\<lparr>turn_q = [49], turn_a = [50]\<rparr>]"
proof -
  let ?st = "Map.empty([115::nat] \<mapsto> [\<lparr>turn_q = [49], turn_a = [50]\<rparr>])"
  have a: "[115] \<in> dom ?st \<or> (3::int) \<le> 0" by simp
  have b: "[116] \<notin> dom ?st \<and> (1::int) \<le> 3" by simp
  have c: "?st [115] = Some [\<lparr>turn_q = [49], turn_a = [50]\<rparr>]" by simp
  note f1 = build_context_frame[of ?st "[115]" 3, THEN conjunct2, THEN conjunct2, THEN conjunct1, rule_format, OF a]
  note f2 = build_context_frame[of ?st "[116]" 3, THEN conjunct2, THEN conjunct2, THEN conjunct2, rule_format, OF b]
  note f3 = build_context_frame[of ?st "[116]" 3, THEN conjunct2, THEN conjunct1, rule_format, OF c]
  show ?thesis by (intro conjI) (rule f1 f2 f3)+
qed
section \<open>The source listing: deduplication, page rendering and truncation\<close>

declare digits.simps [simp del]

lemma digits_val_snoc: "digits_val (ds @ [c]) = 10 * digits_val ds + (c - 48)"
  by (simp add: digits_val_def)

lemma digits_val_digits: "digits_val (digits n) = n"
proof (induction n rule: digits.induct)
  case (1 n)
  show ?case
  proof (cases "n < 10")
    case True
    then show ?thesis by (subst digits.simps) (simp add: digits_val_def)
  next
    case False
    with 1 have "digits_val (digits (n div 10)) = n div 10" by simp
    with False show ?thesis by (subst digits.simps) (simp add: digits_val_snoc)
  qed
qed

lemma digits_inj: "digits m = digits n \<Longrightarrow> m = n"
  by (metis digits_val_digits)

lemma digits_range: "c \<in> set (digits n) \<Longrightarrow> 48 \<le> c \<and> c \<le> 57"
proof (induction n rule: digits.induct)
  case (1 n)
  show ?case
  proof (cases "n < 10")
    case True
    with "1.prems" show ?thesis by (subst (asm) digits.simps) simp
  next
    case False
    from "1.prems" have "c \<in> set (digits (n div 10)) \<or> c = 48 + n mod 10"
      using False by (subst (asm) digits.simps) auto
    then show ?thesis
    proof
      assume "c \<in> set (digits (n div 10))"
      with 1 False show ?thesis by simp
    next
      assume "c = 48 + n mod 10"
      then show ?thesis by simp
    qed
  qed
qed

lemma digits_nonempty: "digits n \<noteq> []"
  by (subst digits.simps) simp

lemma str_int_range: "c \<in> set (str_int i) \<Longrightarrow> c = 45 \<or> (48 \<le> c \<and> c \<le> 57)"
  by (auto simp: str_int_def dest: digits_range split: if_splits)

lemma colon_notin_str_int: "58 \<notin> set (str_int i)"
  using str_int_range[of 58 i] by auto

lemma str_int_inj: "str_int i = str_int j \<Longrightarrow> i = j"
proof -
  assume e: "str_int i = str_int j"
  have no45: "\<And>n. hd (digits n) \<noteq> 45"
  proof -
    fix n
    have "hd (digits n) \<in> set (digits n)" using digits_nonempty by simp
    from digits_range[OF this] show "hd (digits n) \<noteq> 45" by simp
  qed
  show "i = j"
  proof (cases "i < 0")
    case True
    show ?thesis
    proof (cases "j < 0")
      case True
      with \<open>i < 0\<close> e have "digits (nat (- i)) = digits (nat (- j))" by (simp add: str_int_def)
      then have "nat (- i) = nat (- j)" by (rule digits_inj)
      with True \<open>i < 0\<close> show ?thesis by simp
    next
      case False
      with \<open>i < 0\<close> e have "45 # digits (nat (- i)) = digits (nat j)" by (simp add: str_int_def)
      then have "hd (digits (nat j)) = 45" by (metis list.sel(1))
      with no45 show ?thesis by simp
    qed
  next
    case False
    show ?thesis
    proof (cases "j < 0")
      case True
      with False e have "digits (nat i) = 45 # digits (nat (- j))" by (simp add: str_int_def)
      then have "hd (digits (nat i)) = 45" by (metis list.sel(1))
      with no45 show ?thesis by simp
    next
      case jpos: False
      with False e have "digits (nat i) = digits (nat j)" by (simp add: str_int_def)
      then have "nat i = nat j" by (rule digits_inj)
      with False jpos show ?thesis by simp
    qed
  qed
qed

lemma split_at_last:
  assumes "a @ c # x = b @ c # y" and "c \<notin> set x" and "c \<notin> set y"
  shows "a = b \<and> x = y"
proof -
  have "rev x @ c # rev a = rev y @ c # rev b"
    using assms(1) by (metis rev.simps(2) rev_append append_assoc append_Cons append_Nil)
  then have "takeWhile (\<lambda>z. z \<noteq> c) (rev x @ c # rev a) = takeWhile (\<lambda>z. z \<noteq> c) (rev y @ c # rev b)"
    by simp
  moreover have "takeWhile (\<lambda>z. z \<noteq> c) (rev x @ c # rev a) = rev x"
    using assms(2) by (subst takeWhile_append2) auto
  moreover have "takeWhile (\<lambda>z. z \<noteq> c) (rev y @ c # rev b) = rev y"
    using assms(3) by (subst takeWhile_append2) auto
  ultimately have "x = y" by simp
  with assms(1) show ?thesis by simp
qed

lemma format_sources_loop_first_by:
  "format_sources_loop n ds seen lines =
     lines @ map (source_line n) (first_by source_key (filter (\<lambda>d. source_key d \<notin> seen) ds))"
proof (induction ds arbitrary: seen lines)
  case Nil
  then show ?case by simp
next
  case (Cons d ds)
  show ?case
  proof (cases "source_key d \<in> seen")
    case True
    then show ?thesis by (simp add: Cons.IH)
  next
    case False
    then show ?thesis by (simp add: Cons.IH conj_commute)
  qed
qed

lemma format_sources_n_first_by:
  "format_sources_n n docs = join [10] (map (source_line n) (first_by source_key docs))"
  by (simp add: format_sources_n_def format_sources_loop_first_by)

lemma first_by_cong:
  "(\<And>d e. d \<in> set ds \<Longrightarrow> e \<in> set ds \<Longrightarrow> (k1 d = k1 e) = (k2 d = k2 e)) \<Longrightarrow>
   first_by k1 ds = first_by k2 ds"
proof (induction k1 ds rule: first_by.induct)
  case (1 key)
  then show ?case by simp
next
  case (2 key x xs)
  have f: "filter (\<lambda>y. key y \<noteq> key x) xs = filter (\<lambda>y. k2 y \<noteq> k2 x) xs"
    by (rule filter_cong) (auto simp: "2.prems")
  have "first_by key (filter (\<lambda>y. key y \<noteq> key x) xs) = first_by k2 (filter (\<lambda>y. key y \<noteq> key x) xs)"
    by (rule "2.IH") (auto simp: "2.prems")
  then show ?case by (simp add: f)
qed

lemma source_key_paged:
  assumes "md_page (doc_metadata d) = Some p" and "md_page (doc_metadata e) = Some r"
  shows "source_key d = source_key e \<longleftrightarrow> get_source d = get_source e \<and> p = r"
proof
  assume "source_key d = source_key e"
  with assms have "get_source d @ 58 # str_int p = get_source e @ 58 # str_int r"
    by (simp add: source_key_def ascii_def)
  from split_at_last[OF this colon_notin_str_int colon_notin_str_int]
  show "get_source d = get_source e \<and> p = r" by (auto dest: str_int_inj)
next
  assume "get_source d = get_source e \<and> p = r"
  with assms show "source_key d = source_key e" by (simp add: source_key_def)
qed

lemma source_key_unpaged:
  assumes "md_page (doc_metadata d) = None" and "md_page (doc_metadata e) = None"
  shows "source_key d = source_key e \<longleftrightarrow> get_source d = get_source e"
  using assms by (simp add: source_key_def)

lemma keys_agree:
  assumes "md_page (doc_metadata d) = None \<longleftrightarrow> md_page (doc_metadata e) = None"
  shows "source_key d = source_key e \<longleftrightarrow> spec_key d = spec_key e"
proof (cases "md_page (doc_metadata d)")
  case None
  with assms have "md_page (doc_metadata e) = None" by simp
  with None show ?thesis by (simp add: source_key_def spec_key_def)
next
  case (Some p)
  with assms obtain r where r: "md_page (doc_metadata e) = Some r" by auto
  from source_key_paged[OF Some r] Some r show ?thesis by (simp add: spec_key_def)
qed

lemma spec_key_imp_source_key: "spec_key d = spec_key e \<Longrightarrow> source_key d = source_key e"
  by (auto simp: spec_key_def source_key_def split: option.splits)

lemma make_snippet_length: "length (make_snippet n d) \<le> Suc n"
  by (simp add: make_snippet_def Let_def)

lemma format_sources_eq_spec:
  assumes "\<forall>d\<in>set docs. \<forall>e\<in>set docs.
             md_page (doc_metadata d) \<noteq> None \<and> md_page (doc_metadata e) = None \<longrightarrow>
             source_key d \<noteq> source_key e"
  shows "format_sources docs = spec_format_sources docs"
proof -
  have "first_by source_key docs = first_by spec_key docs"
  proof (rule first_by_cong)
    fix d e
    assume d: "d \<in> set docs" and e: "e \<in> set docs"
    show "(source_key d = source_key e) = (spec_key d = spec_key e)"
    proof (cases "md_page (doc_metadata d) = None \<longleftrightarrow> md_page (doc_metadata e) = None")
      case True
      then show ?thesis by (rule keys_agree)
    next
      case False
      then have "source_key d \<noteq> source_key e"
        using assms d e by (metis)
      moreover from False have "spec_key d \<noteq> spec_key e"
        by (auto simp: spec_key_def split: option.splits)
      ultimately show ?thesis by simp
    qed
  qed
  then show ?thesis
    by (simp add: format_sources_def format_sources_n_first_by spec_format_sources_def)
qed

lemmas listing_eval =
  format_sources_def format_sources_n_def mk_doc_def source_key_def source_line_def
  get_source_def str_int_def digits.simps ascii_def make_snippet_def strip_def
  replace_newlines_def is_space_def Let_def

lemma format_sources_single: "format_sources [d] = source_line 220 d"
  by (simp add: format_sources_def format_sources_n_def)

text \<open>
  Claim C10. For every source \<open>S\<close> and integer page \<open>p\<close>, the chunk \<open>(S, p)\<close> and the
  chunk whose source is the text \<open>S:p\<close> and which has no page differ in source and in
  page, and have the same deduplication key. Listed after the first, the second has its
  citation line dropped, though alone it would be listed, with a line of its own.
\<close>

theorem source_key_not_injective:
  "source_key (mk_doc (Some S) (Some p) c1) =
     source_key (mk_doc (Some (S @ ascii '':'' @ str_int p)) None c2) \<and>
   md_page (doc_metadata (mk_doc (Some S) (Some p) c1)) \<noteq>
     md_page (doc_metadata (mk_doc (Some (S @ ascii '':'' @ str_int p)) None c2)) \<and>
   md_source (doc_metadata (mk_doc (Some S) (Some p) c1)) \<noteq>
     md_source (doc_metadata (mk_doc (Some (S @ ascii '':'' @ str_int p)) None c2)) \<and>
   format_sources [mk_doc (Some S) (Some p) c1,
                   mk_doc (Some (S @ ascii '':'' @ str_int p)) None c2]
     = source_line 220 (mk_doc (Some S) (Some p) c1) \<and>
   format_sources [mk_doc (Some (S @ ascii '':'' @ str_int p)) None c2]
     = source_line 220 (mk_doc (Some (S @ ascii '':'' @ str_int p)) None c2) \<and>
   source_line 220 (mk_doc (Some (S @ ascii '':'' @ str_int p)) None c2)
     \<noteq> source_line 220 (mk_doc (Some S) (Some p) c1)"
proof (intro conjI)
  show k: "source_key (mk_doc (Some S) (Some p) c1) =
     source_key (mk_doc (Some (S @ ascii '':'' @ str_int p)) None c2)"
    by (simp add: source_key_def mk_doc_def get_source_def)
  show "format_sources [mk_doc (Some S) (Some p) c1,
                   mk_doc (Some (S @ ascii '':'' @ str_int p)) None c2]
     = source_line 220 (mk_doc (Some S) (Some p) c1)"
    by (simp add: format_sources_def format_sources_n_def k[symmetric])
  show "source_line 220 (mk_doc (Some (S @ ascii '':'' @ str_int p)) None c2)
     \<noteq> source_line 220 (mk_doc (Some S) (Some p) c1)"
    by (simp add: source_line_def mk_doc_def get_source_def ascii_def)
qed (simp_all add: mk_doc_def format_sources_single ascii_def)

text \<open>The collision on \<open>a.pdf\<close>, page 7.\<close>

theorem source_key_not_injective_witness:
  "format_sources [mk_doc (Some (ascii ''a.pdf'')) (Some 7) (ascii ''first''),
                   mk_doc (Some (ascii ''a.pdf:7'')) None (ascii ''second'')]
     = ascii ''- a.pdf (p.8): first''"
  using source_key_not_injective[of "ascii ''a.pdf''" 7 "ascii ''first''" "ascii ''second''"]
  by (simp add: listing_eval)
section \<open>Ingestion: the source key and the scope tag\<close>

lemma normalize_source_first:
  "md_source (normalize_source md) =
     (if truthy (md_source md) then md_source md
      else if truthy (md_file_path md) then md_file_path md
      else if truthy (md_path md) then md_path md
      else if truthy (md_filename md) then md_filename md
      else (case md_filename md of None \<Rightarrow> md_source md | Some s \<Rightarrow> Some s))"
  by (auto simp: normalize_source_def py_or_def truthy_def Let_def split: option.splits)

lemma normalize_source_truthy:
  "truthy (md_source (normalize_source md)) \<longleftrightarrow>
     truthy (md_source md) \<or> truthy (md_file_path md) \<or> truthy (md_path md) \<or>
     truthy (md_filename md)"
  by (auto simp: normalize_source_first truthy_def split: option.splits)

text \<open>
  Claim C9 as stated fails: for a document on which the loader set none of the four
  candidate keys, normalisation leaves \<open>source\<close> unset, and the source listing falls back
  to \<open>unknown\<close>.
\<close>

theorem normalize_source_unset:
  "md_source (normalize_source empty_metadata) = None \<and>
   get_source \<lparr>page_content = ascii ''text'', doc_metadata = normalize_source empty_metadata\<rparr>
     = ascii ''unknown''"
  by (simp add: normalize_source_def empty_metadata_def py_or_def truthy_def get_source_def)

text \<open>
  Claim C9, amended. After normalisation the \<open>source\<close> field is a non-empty string
  exactly when at least one of the candidate keys \<open>source\<close>, \<open>file_path\<close>, \<open>path\<close>,
  \<open>filename\<close> held a non-empty value, and it is then the first such value in that order,
  which is what the source listing cites. When no candidate key is set, the metadata is
  left as it is, \<open>source\<close> stays unset and the listing reads \<open>unknown\<close>. The page is
  never touched.
\<close>

theorem normalize_source_nonempty:
  "(truthy (md_source (normalize_source md)) \<longleftrightarrow>
      truthy (md_source md) \<or> truthy (md_file_path md) \<or> truthy (md_path md) \<or>
      truthy (md_filename md)) \<and>
   (truthy (md_source md) \<or> truthy (md_file_path md) \<or> truthy (md_path md) \<or>
      truthy (md_filename md) \<longrightarrow>
    (\<exists>s. s \<noteq> [] \<and> md_source (normalize_source md) = Some s \<and>
         get_source \<lparr>page_content = c, doc_metadata = normalize_source md\<rparr> = s) \<and>
    md_source (normalize_source md) =
      (if truthy (md_source md) then md_source md
       else if truthy (md_file_path md) then md_file_path md
       else if truthy (md_path md) then md_path md
       else md_filename md)) \<and>
   (md_source md = None \<and> md_file_path md = None \<and> md_path md = None \<and>
      md_filename md = None \<longrightarrow>
    normalize_source md = md \<and>
    get_source \<lparr>page_content = c, doc_metadata = normalize_source md\<rparr> = ascii ''unknown'') \<and>
   md_page (normalize_source md) = md_page md"
proof (intro conjI impI)
  show "truthy (md_source (normalize_source md)) \<longleftrightarrow>
      truthy (md_source md) \<or> truthy (md_file_path md) \<or> truthy (md_path md) \<or>
      truthy (md_filename md)"
    by (rule normalize_source_truthy)
next
  assume a: "truthy (md_source md) \<or> truthy (md_file_path md) \<or> truthy (md_path md) \<or>
      truthy (md_filename md)"
  then have "truthy (md_source (normalize_source md))" by (simp add: normalize_source_truthy)
  then obtain s where s: "md_source (normalize_source md) = Some s" "s \<noteq> []"
    by (auto simp: truthy_def split: option.splits)
  then show "\<exists>s. s \<noteq> [] \<and> md_source (normalize_source md) = Some s \<and>
         get_source \<lparr>page_content = c, doc_metadata = normalize_source md\<rparr> = s"
    by (simp add: get_source_def)
  from a show "md_source (normalize_source md) =
      (if truthy (md_source md) then md_source md
       else if truthy (md_file_path md) then md_file_path md
       else if truthy (md_path md) then md_path md
       else md_filename md)"
    by (auto simp: normalize_source_first)
next
  assume n: "md_source md = None \<and> md_file_path md = None \<and> md_path md = None \<and>
      md_filename md = None"
  then show "normalize_source md = md"
    by (simp add: normalize_source_def py_or_def truthy_def)
  with n show "get_source \<lparr>page_content = c, doc_metadata = normalize_source md\<rparr> = ascii ''unknown''"
    by (simp add: get_source_def)
next
  show "md_page (normalize_source md) = md_page md"
    by (simp add: normalize_source_def Let_def split: option.splits)
qed

text \<open>A document with \<open>path\<close> and \<open>filename\<close> set, and one with nothing set.\<close>

theorem normalize_source_nonempty_witness:
  "md_source (normalize_source (empty_metadata\<lparr>md_path := Some (ascii ''kb/a.md''),
      md_filename := Some (ascii ''a.md'')\<rparr>)) = Some (ascii ''kb/a.md'') \<and>
   normalize_source empty_metadata = empty_metadata"
proof -
  let ?md = "empty_metadata\<lparr>md_path := Some (ascii ''kb/a.md''), md_filename := Some (ascii ''a.md'')\<rparr>"
  have a: "truthy (md_source ?md) \<or> truthy (md_file_path ?md) \<or> truthy (md_path ?md) \<or>
      truthy (md_filename ?md)"
    by (simp add: truthy_def ascii_def)
  have n: "md_source empty_metadata = None \<and> md_file_path empty_metadata = None \<and>
      md_path empty_metadata = None \<and> md_filename empty_metadata = None"
    by (simp add: empty_metadata_def)
  note t1 = normalize_source_nonempty[of ?md, THEN conjunct2, THEN conjunct1, THEN mp, OF a,
      THEN conjunct2]
  note t2 = normalize_source_nonempty[of empty_metadata, THEN conjunct2, THEN conjunct2,
      THEN conjunct1, THEN mp, OF n, THEN conjunct1]
  from t1 t2 show ?thesis by (simp add: truthy_def empty_metadata_def ascii_def)
qed

lemma relative_to_below: "relative_to (root @ rest) root = Inr rest"
  by (simp add: relative_to_def)

lemma relative_to_outside:
  "take (length root) p \<noteq> root \<Longrightarrow> \<exists>e. relative_to p root = Inl e"
  by (simp add: relative_to_def)

lemma kb_scope_values:
  "kb_scope resolve kb_root md \<in> {ascii ''internal'', ascii ''public'', ascii ''unknown''}"
  by (simp add: kb_scope_def relative_to_def Let_def split: sum.splits)

text \<open>
  Claim C7. The scope tag is a function of the document's source path, the file system's
  resolution of it and the corpus root, and is one of \<open>internal\<close>, \<open>public\<close>, \<open>unknown\<close>.
  When the path resolves below the corpus root, the tag is decided by the first segment
  below the root, lowered: \<open>internal\<close>, \<open>public\<close>, else \<open>unknown\<close>. The root itself, a path
  outside the root and a path whose resolution raises all give \<open>unknown\<close>: no failure
  leaves the function. The tag is stored under \<open>kb_scope\<close>, computed on the normalised
  metadata.
\<close>

theorem kb_scope_first_segment:
  "kb_scope resolve kb_root md \<in> {ascii ''internal'', ascii ''public'', ascii ''unknown''} \<and>
   (\<forall>top rest.
      resolve (case md_source md of None \<Rightarrow> [] | Some s \<Rightarrow> s) = Inr (kb_root @ top # rest) \<longrightarrow>
      kb_scope resolve kb_root md =
        (if lower top = ascii ''internal'' then ascii ''internal''
         else if lower top = ascii ''public'' then ascii ''public''
         else ascii ''unknown'')) \<and>
   (resolve (case md_source md of None \<Rightarrow> [] | Some s \<Rightarrow> s) = Inr kb_root \<longrightarrow>
      kb_scope resolve kb_root md = ascii ''unknown'') \<and>
   (\<forall>p. resolve (case md_source md of None \<Rightarrow> [] | Some s \<Rightarrow> s) = Inr p \<and>
        take (length kb_root) p \<noteq> kb_root \<longrightarrow>
      kb_scope resolve kb_root md = ascii ''unknown'') \<and>
   (\<forall>e. resolve (case md_source md of None \<Rightarrow> [] | Some s \<Rightarrow> s) = Inl e \<longrightarrow>
      kb_scope resolve kb_root md = ascii ''unknown'') \<and>
   md_kb_scope (tag_metadata resolve kb_root md) =
     Some (kb_scope resolve kb_root (normalize_source md)) \<and>
   lower (ascii ''INTERNAL'') = ascii ''internal'' \<and>
   lower (ascii ''Public'') = ascii ''public'' \<and>
   (\<forall>top. lower (lower top) = lower top)"
proof (intro conjI allI impI)
  show "kb_scope resolve kb_root md \<in> {ascii ''internal'', ascii ''public'', ascii ''unknown''}"
    by (rule kb_scope_values)
next
  fix top rest
  assume "resolve (case md_source md of None \<Rightarrow> [] | Some s \<Rightarrow> s) = Inr (kb_root @ top # rest)"
  then show "kb_scope resolve kb_root md =
        (if lower top = ascii ''internal'' then ascii ''internal''
         else if lower top = ascii ''public'' then ascii ''public''
         else ascii ''unknown'')"
    by (simp add: kb_scope_def relative_to_below Let_def)
next
  assume "resolve (case md_source md of None \<Rightarrow> [] | Some s \<Rightarrow> s) = Inr kb_root"
  then show "kb_scope resolve kb_root md = ascii ''unknown''"
    by (simp add: kb_scope_def relative_to_def Let_def lower_def ascii_def)
next
  fix p
  assume "resolve (case md_source md of None \<Rightarrow> [] | Some s \<Rightarrow> s) = Inr p \<and>
        take (length kb_root) p \<noteq> kb_root"
  then show "kb_scope resolve kb_root md = ascii ''unknown''"
    by (simp add: kb_scope_def relative_to_def)
next
  fix e
  assume "resolve (case md_source md of None \<Rightarrow> [] | Some s \<Rightarrow> s) = Inl e"
  then show "kb_scope resolve kb_root md = ascii ''unknown''"
    by (simp add: kb_scope_def)
next
  show "md_kb_scope (tag_metadata resolve kb_root md) =
     Some (kb_scope resolve kb_root (normalize_source md))"
    by (simp add: tag_metadata_def Let_def)
next
  show "lower (ascii ''INTERNAL'') = ascii ''internal''" by (simp add: lower_def ascii_def)
next
  show "lower (ascii ''Public'') = ascii ''public''" by (simp add: lower_def ascii_def)
next
  fix top
  show "lower (lower top) = lower top" by (induction top) (auto simp: lower_def)
qed

lemmas scope_eval =
  kb_scope_def sample_resolve_def sample_root_def source_metadata_def empty_metadata_def
  relative_to_def lower_def ascii_def Let_def

text \<open>
  The specification's paths below the corpus root \<open>/srv/kb\<close>, the root itself, a path
  outside it and a source that does not resolve.
\<close>

theorem kb_scope_first_segment_witness:
  "kb_scope sample_resolve sample_root (source_metadata (ascii ''/srv/kb/internal/x.md''))
     = ascii ''internal'' \<and>
   kb_scope sample_resolve sample_root (source_metadata (ascii ''/srv/kb/public/x.md''))
     = ascii ''public'' \<and>
   kb_scope sample_resolve sample_root (source_metadata (ascii ''/srv/kb/x.md''))
     = ascii ''unknown'' \<and>
   kb_scope sample_resolve sample_root (source_metadata (ascii ''/srv/kb/INTERNAL/x.md''))
     = ascii ''internal'' \<and>
   kb_scope sample_resolve sample_root (source_metadata (ascii ''/srv/kb''))
     = ascii ''unknown'' \<and>
   kb_scope sample_resolve sample_root (source_metadata (ascii ''/etc/internal/x.md''))
     = ascii ''unknown'' \<and>
   kb_scope sample_resolve sample_root empty_metadata = ascii ''unknown''"
proof -
  let ?src = "\<lambda>md. (case md_source md of None \<Rightarrow> [] | Some s \<Rightarrow> s)"
  let ?r = sample_resolve and ?k = sample_root
  note T = kb_scope_first_segment[of ?r ?k]
  have r1: "?r (?src (source_metadata (ascii ''/srv/kb/internal/x.md'')))
       = Inr (?k @ ascii ''internal'' # [ascii ''x.md''])"
    by (simp add: scope_eval)
  have r2: "?r (?src (source_metadata (ascii ''/srv/kb/public/x.md'')))
       = Inr (?k @ ascii ''public'' # [ascii ''x.md''])"
    by (simp add: scope_eval)
  have r3: "?r (?src (source_metadata (ascii ''/srv/kb/x.md''))) = Inr (?k @ ascii ''x.md'' # [])"
    by (simp add: scope_eval)
  have r4: "?r (?src (source_metadata (ascii ''/srv/kb/INTERNAL/x.md'')))
       = Inr (?k @ ascii ''INTERNAL'' # [ascii ''x.md''])"
    by (simp add: scope_eval)
  have r5: "?r (?src (source_metadata (ascii ''/srv/kb''))) = Inr ?k"
    by (simp add: scope_eval)
  have r6: "?r (?src (source_metadata (ascii ''/etc/internal/x.md'')))
       = Inr [ascii ''etc'', ascii ''internal'', ascii ''x.md''] \<and>
     take (length ?k) [ascii ''etc'', ascii ''internal'', ascii ''x.md''] \<noteq> ?k"
    by (simp add: scope_eval)
  have r8: "?r (?src empty_metadata) = Inl (External (ascii ''cannot resolve''))"
    by (simp add: scope_eval)
  note seg = T[THEN conjunct2, THEN conjunct1, rule_format]
  note root = T[THEN conjunct2, THEN conjunct2, THEN conjunct1, rule_format]
  note out = T[THEN conjunct2, THEN conjunct2, THEN conjunct2, THEN conjunct1, rule_format]
  note err = T[THEN conjunct2, THEN conjunct2, THEN conjunct2, THEN conjunct2, THEN conjunct1,
      rule_format]
  show ?thesis
    using seg[OF r1] seg[OF r2] seg[OF r3] seg[OF r4] root[OF r5] out[OF r6] err[OF r8]
    by (simp add: lower_def ascii_def)
qed
section \<open>The streaming emitter and the endpoints\<close>

lemma concat_slices: "concat (map (\<lambda>j. take k (drop (j * k) s)) [0..<m]) = take (m * k) s"
proof (induction m)
  case 0
  then show ?case by simp
next
  case (Suc m)
  have "take (m * k) s @ take k (drop (m * k) s) = take (m * k + k) s"
    by (simp add: take_add)
  with Suc show ?case by (simp add: add.commute)
qed

lemma ceil_div_covers: "0 < k \<Longrightarrow> n \<le> ((n + k - 1) div k) * (k::nat)"
proof -
  assume k: "0 < k"
  have "n + k - 1 = ((n + k - 1) div k) * k + (n + k - 1) mod k" by simp
  moreover have "(n + k - 1) mod k < k" using k by simp
  ultimately show ?thesis using k by linarith
qed

lemma ceil_div_index: "0 < k \<Longrightarrow> j < (n + k - 1) div k \<Longrightarrow> j * k < (n::nat)"
proof -
  assume k: "0 < k" and j: "j < (n + k - 1) div k"
  from j have "Suc j \<le> (n + k - 1) div k" by simp
  then have "Suc j * k \<le> ((n + k - 1) div k) * k" by (rule mult_le_mono1)
  also have "\<dots> \<le> n + k - 1" by simp
  finally show ?thesis using k by simp
qed

lemma chunk_text_slices:
  "chunk_text s 140 =
     Inr (map (\<lambda>j. take 140 (drop (j * 140) s)) [0..<(length s + 139) div 140])"
  by (simp add: chunk_text_def range_step_def comp_def add.commute)

lemma chunk_text_concat: "chunk_text s 140 = Inr chunks \<Longrightarrow> concat chunks = s"
proof -
  assume "chunk_text s 140 = Inr chunks"
  then have c: "chunks = map (\<lambda>j. take 140 (drop (j * 140) s)) [0..<(length s + 139) div 140]"
    by (simp add: chunk_text_slices)
  have "length s \<le> ((length s + 140 - 1) div 140) * 140"
    by (rule ceil_div_covers) simp
  then show ?thesis by (simp add: c concat_slices)
qed

lemma chunk_text_sizes:
  assumes "chunk_text s 140 = Inr chunks" and "c \<in> set chunks"
  shows "0 < length c \<and> length c \<le> 140"
proof -
  from assms(1) have "chunks = map (\<lambda>j. take 140 (drop (j * 140) s)) [0..<(length s + 139) div 140]"
    by (simp add: chunk_text_slices)
  with assms(2) obtain j where j: "j < (length s + 139) div 140" and c: "c = take 140 (drop (j * 140) s)"
    by auto
  from j have "j < (length s + 140 - 1) div 140" by simp
  then have "j * 140 < length s" by (rule ceil_div_index[rotated]) simp
  then show ?thesis by (simp add: c)
qed

lemma chunk_text_305:
  assumes "length s = 305"
  shows "chunk_text s 140 = Inr [take 140 s, take 140 (drop 140 s), drop 280 s]"
proof -
  have "[0..<(305 + 139) div 140] = [0, 1, 2::nat]" by (simp add: upt_rec)
  with assms show ?thesis by (simp add: chunk_text_slices)
qed

lemma gen_success:
  assumes "ask caps (req_agent req) question (req_k req) (calls st) = (Inr (answer, sources), log)"
  shows "\<exists>chunks. chunk_text answer 140 = Inr chunks \<and>
           fst (gen caps st req question) = map Delta chunks @ [Done sources]"
  using assms by (simp add: gen_def chunk_text_slices)

lemma gen_failure:
  assumes "ask caps (req_agent req) question (req_k req) (calls st) = (Inl e, log)"
  shows "gen caps st req question = ([ErrorEvent (str_exc caps e)], st\<lparr>calls := log\<rparr>)"
  using assms by (simp add: gen_def)

text \<open>
  Claim C2. For every answer, the chunks the emitter sends are the slices of 140 characters
  at the offsets 0, 140, 280, ... of the answer, in order; their concatenation is the
  answer, and each has between 1 and 140 characters. An answer of length 305 gives three
  chunks, of lengths 140, 140 and 25. When the pipeline returns the answer and the source
  listing, the events are one delta per chunk followed by one done event with the listing.
\<close>

theorem stream_delta_slices:
  "chunk_text answer 140 =
     Inr (map (\<lambda>j. take 140 (drop (j * 140) answer)) [0..<(length answer + 139) div 140]) \<and>
   (\<forall>chunks. chunk_text answer 140 = Inr chunks \<longrightarrow>
      concat chunks = answer \<and> (\<forall>c\<in>set chunks. 0 < length c \<and> length c \<le> 140)) \<and>
   (length answer = 305 \<longrightarrow>
      chunk_text answer 140 = Inr [take 140 answer, take 140 (drop 140 answer), drop 280 answer] \<and>
      map length [take 140 answer, take 140 (drop 140 answer), drop 280 answer] = [140, 140, 25]) \<and>
   (\<forall>caps st req question sources log.
      ask caps (req_agent req) question (req_k req) (calls st) = (Inr (answer, sources), log) \<longrightarrow>
      fst (gen caps st req question) =
        map Delta (map (\<lambda>j. take 140 (drop (j * 140) answer)) [0..<(length answer + 139) div 140])
        @ [Done sources])"
proof (intro conjI allI impI ballI)
  show "chunk_text answer 140 =
     Inr (map (\<lambda>j. take 140 (drop (j * 140) answer)) [0..<(length answer + 139) div 140])"
    by (rule chunk_text_slices)
next
  fix chunks
  assume "chunk_text answer 140 = Inr chunks"
  then show "concat chunks = answer" by (rule chunk_text_concat)
next
  fix chunks c
  assume "chunk_text answer 140 = Inr chunks" and "c \<in> set chunks"
  then have "0 < length c \<and> length c \<le> 140" by (rule chunk_text_sizes)
  then show "0 < length c" and "length c \<le> 140" by simp_all
next
  assume "length answer = 305"
  then show "chunk_text answer 140 =
      Inr [take 140 answer, take 140 (drop 140 answer), drop 280 answer]"
    by (rule chunk_text_305)
next
  assume "length answer = 305"
  then show "map length [take 140 answer, take 140 (drop 140 answer), drop 280 answer]
      = [140, 140, 25]"
    by simp
next
  fix caps :: capabilities and st :: server_state and req :: ask_request
    and question sources log
  assume "ask caps (req_agent req) question (req_k req) (calls st) = (Inr (answer, sources), log)"
  then show "fst (gen caps st req question) =
        map Delta (map (\<lambda>j. take 140 (drop (j * 140) answer)) [0..<(length answer + 139) div 140])
        @ [Done sources]"
    by (simp add: gen_def chunk_text_slices)
qed

lemmas ask_eval =
  ask_def sample_caps_def failing_caps_def sample_request_def sample_state_def get_chat_def
  Let_def

lemma sample_ask:
  "fst (ask sample_caps (ascii ''thesis'') question k log) =
     Inr (ascii ''An answer.'', ascii ''- doc.pdf (p.3): alpha'')"
proof -
  have "format_sources [mk_doc (Some (ascii ''doc.pdf'')) (Some 2) (ascii ''alpha'')]
      = ascii ''- doc.pdf (p.3): alpha''"
    by (simp add: format_sources_def format_sources_n_def mk_doc_def source_key_def
        source_line_def get_source_def str_int_def digits.simps ascii_def make_snippet_def
        strip_def replace_newlines_def is_space_def Let_def)
  then show ?thesis by (simp add: ask_eval)
qed

text \<open>An answer of 305 characters, and the events of a run that answers \<open>An answer.\<close>\<close>

theorem stream_delta_slices_witness:
  "length (replicate 305 (97::nat)) = 305 \<and>
   chunk_text (replicate 305 97) 140 =
     Inr [replicate 140 97, replicate 140 97, replicate 25 97] \<and>
   concat [replicate 140 (97::nat), replicate 140 97, replicate 25 97] = replicate 305 97 \<and>
   fst (gen sample_caps (sample_state True) (sample_request (ascii ''thesis'')) (ascii ''Why?''))
     = [Delta (ascii ''An answer.''), Done (ascii ''- doc.pdf (p.3): alpha'')]"
proof -
  have l: "length (replicate 305 (97::nat)) = 305" by simp
  note T = stream_delta_slices[of "replicate 305 97"]
  note c305 = T[THEN conjunct2, THEN conjunct2, THEN conjunct1, THEN mp, OF l, THEN conjunct1]
  have c: "chunk_text (replicate 305 97) 140 =
     Inr [replicate 140 97, replicate 140 97, replicate 25 97]"
    using c305 by simp
  note cc = T[THEN conjunct2, THEN conjunct1, rule_format, OF c, THEN conjunct1]
  let ?st = "sample_state True" and ?req = "sample_request (ascii ''thesis'')"
  have a: "ask sample_caps (req_agent ?req) (ascii ''Why?'') (req_k ?req) (calls ?st)
      = (Inr (ascii ''An answer.'', ascii ''- doc.pdf (p.3): alpha''),
         snd (ask sample_caps (req_agent ?req) (ascii ''Why?'') (req_k ?req) (calls ?st)))"
    using sample_ask[of "ascii ''Why?''" "req_k ?req" "calls ?st"]
    by (simp add: sample_request_def prod_eq_iff)
  note g = stream_delta_slices[of "ascii ''An answer.''", THEN conjunct2, THEN conjunct2,
      THEN conjunct2, rule_format, OF a]
  have g': "fst (gen sample_caps ?st ?req (ascii ''Why?''))
     = [Delta (ascii ''An answer.''), Done (ascii ''- doc.pdf (p.3): alpha'')]"
    using g by (simp add: ascii_def upt_rec)
  from l c cc g' show ?thesis by simp
qed

lemma get_chat_unknown:
  "agent \<notin> valid_agents \<Longrightarrow> get_chat agent = Inl (ValueError (ascii ''Unknown agent: '' @ agent))"
  by (simp add: get_chat_def valid_agents_def)

lemma ask_log_unknown:
  "agent \<notin> valid_agents \<Longrightarrow>
   snd (ask caps agent question k log) = log @ [Retrieval question k (max 24 (k * 3))]"
  by (simp add: ask_def Let_def get_chat_unknown split: sum.splits)

lemma ask_fails_unknown:
  "agent \<notin> valid_agents \<Longrightarrow> \<exists>e. fst (ask caps agent question k log) = Inl e"
  by (simp add: ask_def Let_def get_chat_unknown split: sum.splits)

lemma ask_unknown_after_retrieval:
  "agent \<notin> valid_agents \<Longrightarrow> retrieve caps question k (max 24 (k * 3)) = Inr docs \<Longrightarrow>
   fst (ask caps agent question k log) = Inl (ValueError (ascii ''Unknown agent: '' @ agent))"
  by (simp add: ask_def Let_def get_chat_unknown)

text \<open>
  Claim C3 as stated fails for the orchestrator \<open>ask\<close>: called with an agent outside the
  set, it performs the retrieval first and fails only when it resolves the chat model.
\<close>

theorem ask_unknown_agent_retrieves:
  "ascii ''editor'' \<notin> valid_agents \<and>
   ask sample_caps (ascii ''editor'') (ascii ''Why?'') 4 [] =
     (Inl (ValueError (ascii ''Unknown agent: editor'')), [Retrieval (ascii ''Why?'') 4 24])"
  by (simp add: valid_agents_def ask_eval ascii_def)

text \<open>
  Claim C3, amended. At both endpoints an agent outside \<open>thesis\<close>, \<open>python\<close>, \<open>reviewer\<close> is
  rejected before any other step: the answer is the failure with the message of the agent
  check, and the state, session store and call log alike, is unchanged. The orchestrator
  \<open>ask\<close>, which holds no session memory, fails on such an agent as well, after exactly one
  retrieval call and without any generation call; when the retrieval returns, the failure
  is the \<open>ValueError\<close> \<open>Unknown agent\<close> of \<open>get_chat\<close>.
\<close>

theorem unknown_agent_rejected:
  "(req_agent req \<notin> valid_agents \<longrightarrow>
      api_ask caps st req = (JsonFail (http_exception_str caps 400 AGENT_MSG), st) \<and>
      api_ask_stream caps st req = (HttpError 400 AGENT_MSG, st)) \<and>
   (agent \<notin> valid_agents \<longrightarrow>
      (\<exists>e. fst (ask caps agent question k log) = Inl e) \<and>
      snd (ask caps agent question k log) = log @ [Retrieval question k (max 24 (k * 3))] \<and>
      (\<forall>docs. retrieve caps question k (max 24 (k * 3)) = Inr docs \<longrightarrow>
         fst (ask caps agent question k log) =
           Inl (ValueError (ascii ''Unknown agent: '' @ agent))))"
proof (intro conjI allI impI)
  assume "req_agent req \<notin> valid_agents"
  then show "api_ask caps st req = (JsonFail (http_exception_str caps 400 AGENT_MSG), st)"
    by (simp add: api_ask_def str_exc_def)
next
  assume "req_agent req \<notin> valid_agents"
  then show "api_ask_stream caps st req = (HttpError 400 AGENT_MSG, st)"
    by (simp add: api_ask_stream_def)
next
  assume "agent \<notin> valid_agents"
  then show "\<exists>e. fst (ask caps agent question k log) = Inl e" by (rule ask_fails_unknown)
next
  assume "agent \<notin> valid_agents"
  then show "snd (ask caps agent question k log) = log @ [Retrieval question k (max 24 (k * 3))]"
    by (rule ask_log_unknown)
next
  fix docs
  assume "agent \<notin> valid_agents" and "retrieve caps question k (max 24 (k * 3)) = Inr docs"
  then show "fst (ask caps agent question k log) =
           Inl (ValueError (ascii ''Unknown agent: '' @ agent))"
    by (rule ask_unknown_after_retrieval)
qed

text \<open>The agent \<open>editor\<close> at the two endpoints and in \<open>ask\<close>.\<close>

theorem unknown_agent_rejected_witness:
  "api_ask sample_caps (sample_state True) (sample_request (ascii ''editor'')) =
     (JsonFail (ascii ''400: agent must be thesis/python/reviewer''), sample_state True) \<and>
   api_ask_stream sample_caps (sample_state True) (sample_request (ascii ''editor'')) =
     (HttpError 400 (ascii ''agent must be thesis/python/reviewer''), sample_state True) \<and>
   snd (ask sample_caps (ascii ''editor'') (ascii ''Why?'') 4 []) = [Retrieval (ascii ''Why?'') 4 24]"
proof -
  have v: "ascii ''editor'' \<notin> valid_agents" by (simp add: valid_agents_def ascii_def)
  then have v': "req_agent (sample_request (ascii ''editor'')) \<notin> valid_agents"
    by (simp add: sample_request_def)
  note T = unknown_agent_rejected[of "sample_request (ascii ''editor'')" sample_caps
      "sample_state True" "ascii ''editor''" "ascii ''Why?''" 4 "[]"]
  note e = T[THEN conjunct1, THEN mp, OF v']
  note a = T[THEN conjunct2, THEN mp, OF v, THEN conjunct2, THEN conjunct1]
  from e a show ?thesis
    by (simp add: sample_caps_def AGENT_MSG_def str_int_def digits.simps ascii_def)
qed

section \<open>Failures at the endpoints\<close>

lemma gen_events_shape:
  "(\<exists>msg. fst (gen caps st req question) = [ErrorEvent msg]) \<or>
   (\<exists>chunks sources. fst (gen caps st req question) = map Delta chunks @ [Done sources])"
proof (cases "ask caps (req_agent req) question (req_k req) (calls st)")
  case (Pair r log)
  show ?thesis
  proof (cases r)
    case (Inl e)
    with Pair show ?thesis by (simp add: gen_def)
  next
    case (Inr p)
    obtain answer sources where p: "p = (answer, sources)" by (cases p)
    with Pair Inr have "fst (gen caps st req question) =
        map Delta (map (\<lambda>j. take 140 (drop (j * 140) answer)) [0..<(length answer + 139) div 140])
        @ [Done sources]"
      by (simp add: gen_def chunk_text_slices)
    then show ?thesis by blast
  qed
qed

lemma api_ask_stream_shape:
  assumes "api_ask_stream caps st req = (StreamingResponse events, st')"
  shows "(\<exists>msg. events = [ErrorEvent msg]) \<or>
         (\<exists>chunks sources. events = map Delta chunks @ [Done sources])"
proof (cases "req_agent req \<in> valid_agents \<and> index_ready st = Inr True")
  case False
  with assms show ?thesis
    by (auto simp: api_ask_stream_def split: if_splits sum.splits)
next
  case True
  obtain question mem1 where q: "question_for_model (mem st) req = (question, mem1)"
    by (cases "question_for_model (mem st) req")
  obtain evs st1 where g: "gen caps (st\<lparr>mem := mem1\<rparr>) req question = (evs, st1)"
    by (cases "gen caps (st\<lparr>mem := mem1\<rparr>) req question")
  from assms True q g have "events = evs" by (simp add: api_ask_stream_def)
  with gen_events_shape[of caps "st\<lparr>mem := mem1\<rparr>" req question] g show ?thesis by simp
qed

lemma error_not_done: "[ErrorEvent msg] \<noteq> map Delta chunks @ [Done sources]"
  by (cases chunks) simp_all

lemma index_not_ready_state:
  "index_ready st \<noteq> Inr True \<Longrightarrow>
   snd (api_ask caps st req) = st \<and> snd (api_ask_stream caps st req) = st"
  by (auto simp: api_ask_def api_ask_stream_def split: sum.splits)

text \<open>
  Claim C4 as stated fails: the agent check comes before the index check. For a request
  with an agent outside the set and an index that does not exist, the streaming endpoint
  answers the HTTP error 400 and no event, and the other endpoint the message of the agent
  check, not the message about the index.
\<close>

theorem invalid_agent_before_index_check:
  "req_agent (sample_request (ascii ''editor'')) \<notin> valid_agents \<and>
   index_ready (sample_state False) = Inr False \<and>
   api_ask_stream sample_caps (sample_state False) (sample_request (ascii ''editor''))
     = (HttpError 400 AGENT_MSG, sample_state False) \<and>
   api_ask sample_caps (sample_state False) (sample_request (ascii ''editor''))
     = (JsonFail (ascii ''400: agent must be thesis/python/reviewer''), sample_state False) \<and>
   JsonFail (ascii ''400: agent must be thesis/python/reviewer'') \<noteq> JsonFail INDEX_MSG"
  by (simp add: api_ask_def api_ask_stream_def sample_request_def sample_state_def
      valid_agents_def sample_caps_def str_exc_def AGENT_MSG_def INDEX_MSG_def str_int_def
      digits.simps ascii_def)

text \<open>
  Claim C4, amended. For a request whose agent is one of \<open>thesis\<close>, \<open>python\<close>, \<open>reviewer\<close>:
  with the index ready, when the pipeline raises, the streaming endpoint sends the single
  error event with the exception's message (and the other endpoint the failing body with
  it); when the index does not exist or is empty, both endpoints answer with the index
  message; when \<open>index_ready()\<close> itself raises, the one answers the failing body with the
  exception's message and the other the HTTP error 500. For an agent outside the set both
  endpoints answer with the rejection of the agent check, whatever the index. Every stream
  is either one error event or deltas followed by one done event, and never both. Whenever
  the index is not ready the state is unchanged: nothing is retrieved.
\<close>

theorem stream_error_event:
  "(\<forall>question mem1 e log.
      req_agent req \<in> valid_agents \<and> index_ready st = Inr True \<and>
      question_for_model (mem st) req = (question, mem1) \<and>
      ask caps (req_agent req) question (req_k req) (calls st) = (Inl e, log) \<longrightarrow>
      api_ask_stream caps st req =
        (StreamingResponse [ErrorEvent (str_exc caps e)], st\<lparr>mem := mem1, calls := log\<rparr>) \<and>
      api_ask caps st req = (JsonFail (str_exc caps e), st\<lparr>mem := mem1, calls := log\<rparr>)) \<and>
   (\<forall>events st'. api_ask_stream caps st req = (StreamingResponse events, st') \<longrightarrow>
      (\<exists>msg. events = [ErrorEvent msg]) \<or>
      (\<exists>chunks sources. events = map Delta chunks @ [Done sources])) \<and>
   (\<forall>msg chunks sources. [ErrorEvent msg] \<noteq> map Delta chunks @ [Done sources]) \<and>
   (req_agent req \<in> valid_agents \<and> index_ready st = Inr False \<longrightarrow>
      api_ask caps st req = (JsonFail INDEX_MSG, st) \<and>
      api_ask_stream caps st req = (StreamingResponse [ErrorEvent INDEX_MSG], st)) \<and>
   (req_agent req \<notin> valid_agents \<longrightarrow>
      api_ask caps st req = (JsonFail (http_exception_str caps 400 AGENT_MSG), st) \<and>
      api_ask_stream caps st req = (HttpError 400 AGENT_MSG, st)) \<and>
   (\<forall>e. req_agent req \<in> valid_agents \<and> index_ready st = Inl e \<longrightarrow>
      api_ask caps st req = (JsonFail (str_exc caps e), st) \<and>
      api_ask_stream caps st req = (HttpError 500 SERVER_ERROR_MSG, st)) \<and>
   (index_ready st \<noteq> Inr True \<longrightarrow>
      snd (api_ask caps st req) = st \<and> snd (api_ask_stream caps st req) = st)"
proof (intro conjI allI impI)
  fix question mem1 e log
  assume a: "req_agent req \<in> valid_agents \<and> index_ready st = Inr True \<and>
      question_for_model (mem st) req = (question, mem1) \<and>
      ask caps (req_agent req) question (req_k req) (calls st) = (Inl e, log)"
  then show "api_ask_stream caps st req =
        (StreamingResponse [ErrorEvent (str_exc caps e)], st\<lparr>mem := mem1, calls := log\<rparr>)"
    by (simp add: api_ask_stream_def gen_def)
  from a show "api_ask caps st req = (JsonFail (str_exc caps e), st\<lparr>mem := mem1, calls := log\<rparr>)"
    by (simp add: api_ask_def)
next
  fix events st'
  assume "api_ask_stream caps st req = (StreamingResponse events, st')"
  then show "(\<exists>msg. events = [ErrorEvent msg]) \<or>
      (\<exists>chunks sources. events = map Delta chunks @ [Done sources])"
    by (rule api_ask_stream_shape)
next
  fix msg chunks sources
  show "[ErrorEvent msg] \<noteq> map Delta chunks @ [Done sources]" by (rule error_not_done)
next
  assume "req_agent req \<in> valid_agents \<and> index_ready st = Inr False"
  then show "api_ask caps st req = (JsonFail INDEX_MSG, st)"
    and "api_ask_stream caps st req = (StreamingResponse [ErrorEvent INDEX_MSG], st)"
    by (simp_all add: api_ask_def api_ask_stream_def)
next
  assume "req_agent req \<notin> valid_agents"
  then show "api_ask caps st req = (JsonFail (http_exception_str caps 400 AGENT_MSG), st)"
    and "api_ask_stream caps st req = (HttpError 400 AGENT_MSG, st)"
    by (simp_all add: api_ask_def api_ask_stream_def str_exc_def)
next
  fix e
  assume "req_agent req \<in> valid_agents \<and> index_ready st = Inl e"
  then show "api_ask caps st req = (JsonFail (str_exc caps e), st)"
    and "api_ask_stream caps st req = (HttpError 500 SERVER_ERROR_MSG, st)"
    by (simp_all add: api_ask_def api_ask_stream_def)
next
  assume "index_ready st \<noteq> Inr True"
  then have "snd (api_ask caps st req) = st \<and> snd (api_ask_stream caps st req) = st"
    by (rule index_not_ready_state)
  then show "snd (api_ask caps st req) = st" and "snd (api_ask_stream caps st req) = st"
    by simp_all
qed

text \<open>
  A retrieval that raises, an index that is not ready, an agent outside the set, and an
  index path that is not a directory.
\<close>

theorem stream_error_event_witness:
  "fst (api_ask_stream failing_caps (sample_state True) (sample_request (ascii ''thesis'')))
     = StreamingResponse [ErrorEvent (ascii ''index unavailable'')] \<and>
   fst (api_ask failing_caps (sample_state True) (sample_request (ascii ''thesis'')))
     = JsonFail (ascii ''index unavailable'') \<and>
   api_ask sample_caps (sample_state False) (sample_request (ascii ''thesis''))
     = (JsonFail INDEX_MSG, sample_state False) \<and>
   api_ask_stream sample_caps (sample_state False) (sample_request (ascii ''thesis''))
     = (StreamingResponse [ErrorEvent INDEX_MSG], sample_state False) \<and>
   api_ask_stream sample_caps (sample_state False) (sample_request (ascii ''editor''))
     = (HttpError 400 AGENT_MSG, sample_state False) \<and>
   api_ask sample_caps broken_index_state (sample_request (ascii ''thesis''))
     = (JsonFail (ascii ''Not a directory''), broken_index_state) \<and>
   api_ask_stream sample_caps broken_index_state (sample_request (ascii ''thesis''))
     = (HttpError 500 SERVER_ERROR_MSG, broken_index_state)"
proof -
  let ?req = "sample_request (ascii ''thesis'')"
  let ?bad = "sample_request (ascii ''editor'')"
  let ?m1 = "Map.empty(ascii ''s1'' \<mapsto> []) :: session_turns"
  let ?log = "[Retrieval (ascii ''Why?'') 4 24]"
  have v: "req_agent ?req \<in> valid_agents" by (simp add: sample_request_def valid_agents_def)
  have nv: "req_agent ?bad \<notin> valid_agents"
    by (simp add: sample_request_def valid_agents_def ascii_def)
  have q: "question_for_model (mem (sample_state True)) ?req = (ascii ''Why?'', ?m1)"
    by (simp add: question_for_model_def sample_request_def sample_state_def build_context_def
        DEFAULT_CONTEXT_TURNS_def clamp_int_def get_history_def ascii_def)
  have a: "ask failing_caps (req_agent ?req) (ascii ''Why?'') (req_k ?req) (calls (sample_state True))
      = (Inl (External (ascii ''index unavailable'')), ?log)"
    by (simp add: ask_eval)
  have h1: "req_agent ?req \<in> valid_agents \<and> index_ready (sample_state True) = Inr True \<and>
      question_for_model (mem (sample_state True)) ?req = (ascii ''Why?'', ?m1) \<and>
      ask failing_caps (req_agent ?req) (ascii ''Why?'') (req_k ?req) (calls (sample_state True))
        = (Inl (External (ascii ''index unavailable'')), ?log)"
    using v q a by (simp add: sample_state_def)
  have h2: "req_agent ?req \<in> valid_agents \<and> index_ready (sample_state False) = Inr False"
    using v by (simp add: sample_state_def)
  have h3: "req_agent ?req \<in> valid_agents \<and>
      index_ready broken_index_state = Inl (External (ascii ''Not a directory''))"
    using v by (simp add: broken_index_state_def)
  note e = stream_error_event[of ?req "sample_state True" failing_caps, THEN conjunct1,
      rule_format, OF h1]
  note i = stream_error_event[of ?req "sample_state False" sample_caps, THEN conjunct2,
      THEN conjunct2, THEN conjunct2, THEN conjunct1, THEN mp, OF h2]
  note g = stream_error_event[of ?bad "sample_state False" sample_caps, THEN conjunct2,
      THEN conjunct2, THEN conjunct2, THEN conjunct2, THEN conjunct1, THEN mp, OF nv,
      THEN conjunct2]
  note b = stream_error_event[of ?req broken_index_state sample_caps, THEN conjunct2,
      THEN conjunct2, THEN conjunct2, THEN conjunct2, THEN conjunct2, THEN conjunct1,
      rule_format, OF h3]
  from e i g b show ?thesis by (simp add: str_exc_def)
qed
section \<open>The source listing on retrieved chunks\<close>

lemma ends_in_digit_append: "ys \<noteq> [] \<Longrightarrow> ends_in_digit (xs @ ys) = ends_in_digit ys"
  by (cases "rev ys") (simp_all add: ends_in_digit_def)

lemma ends_in_digit_digits: "ends_in_digit (digits n)"
proof -
  have "n mod 10 \<le> 9" by arith
  then show ?thesis by (subst digits.simps) (simp add: ends_in_digit_def is_digit_def)
qed

lemma ends_in_digit_str_int: "ends_in_digit (str_int i)"
proof (cases "i < 0")
  case True
  have "ends_in_digit ([45] @ digits (nat (- i)))"
    by (simp only: ends_in_digit_append[OF digits_nonempty] ends_in_digit_digits)
  with True show ?thesis by (simp add: str_int_def)
next
  case False
  then show ?thesis by (simp add: str_int_def ends_in_digit_digits)
qed

lemma str_int_nonempty: "str_int i \<noteq> []"
  by (simp add: str_int_def digits_nonempty)

lemma paged_key_ends_in_digit:
  "md_page (doc_metadata d) = Some p \<Longrightarrow> ends_in_digit (source_key d)"
proof -
  assume p: "md_page (doc_metadata d) = Some p"
  have "ends_in_digit ((get_source d @ ascii '':'') @ str_int p)"
    by (simp only: ends_in_digit_append[OF str_int_nonempty] ends_in_digit_str_int)
  with p show ?thesis by (simp add: source_key_def)
qed

lemma format_sources_retrieved:
  assumes "\<forall>d\<in>set docs. md_page (doc_metadata d) = None \<longrightarrow> \<not> ends_in_digit (get_source d)"
  shows "format_sources docs = spec_format_sources docs"
proof (rule format_sources_eq_spec, intro ballI impI)
  fix d e
  assume d: "d \<in> set docs" and e: "e \<in> set docs"
    and pe: "md_page (doc_metadata d) \<noteq> None \<and> md_page (doc_metadata e) = None"
  then obtain p where "md_page (doc_metadata d) = Some p" by auto
  then have "ends_in_digit (source_key d)" by (rule paged_key_ends_in_digit)
  moreover have "\<not> ends_in_digit (source_key e)"
    using assms e pe by (simp add: source_key_def)
  ultimately show "source_key d \<noteq> source_key e" by auto
qed

lemma ends_in_digit_lower: "ends_in_digit (lower s) = ends_in_digit s"
  by (cases "rev s") (auto simp: ends_in_digit_def lower_def is_digit_def rev_map[symmetric])

lemma ends_in_digit_drop: "k < length s \<Longrightarrow> ends_in_digit (drop k s) = ends_in_digit s"
proof -
  assume "k < length s"
  then have "drop k s \<noteq> []" by simp
  from ends_in_digit_append[OF this, of "take k s"] show ?thesis by simp
qed

lemma text_suffix_no_digit:
  assumes "has_text_suffix s"
  shows "\<not> ends_in_digit s"
proof -
  from assms obtain ext where ext: "ext \<in> set TEXT_EXT" "length ext \<le> length s"
    "lower (drop (length s - length ext) s) = ext"
    by (auto simp: has_text_suffix_def list_ex_iff)
  from ext(1) have ne: "ext \<noteq> []" and nd: "\<not> ends_in_digit ext"
    by (auto simp: TEXT_EXT_def ascii_def ends_in_digit_def is_digit_def)
  from ne ext(2) have "length s - length ext < length s" by (cases ext) auto
  then have "ends_in_digit (drop (length s - length ext) s) = ends_in_digit s"
    by (rule ends_in_digit_drop)
  with ext(3) nd ends_in_digit_lower[of "drop (length s - length ext) s"] show ?thesis by simp
qed

text \<open>
  Claim C8. The chunks retrieval returns are the ones \<open>load_docs\<close> put into the index: a
  chunk without a page comes from a text file, and its source ends in the file's suffix
  (or is missing and reads \<open>unknown\<close>), never in a digit. For every list of such chunks the
  source listing is the one the specification words: the first chunk for each key, in
  first-seen order, the key being the pair of source and page when the page is present and
  the source alone otherwise. The page is rendered 1-based (page 2 as \<open>(p.3)\<close>), and the
  snippet is the cleaned content when that has at most 220 characters, and its first 220
  characters followed by the ellipsis otherwise.
\<close>

theorem format_sources_listing:
  "((\<forall>d\<in>set docs. md_page (doc_metadata d) = None \<longrightarrow> \<not> ends_in_digit (get_source d)) \<longrightarrow>
      format_sources docs = spec_format_sources docs) \<and>
   (\<forall>s. has_text_suffix s \<longrightarrow> \<not> ends_in_digit s) \<and>
   \<not> ends_in_digit (ascii ''unknown'') \<and>
   (\<forall>d p. md_page (doc_metadata d) = Some p \<longrightarrow>
      source_line 220 d =
        ascii ''- '' @ get_source d @ ascii '' (p.'' @ str_int (p + 1) @ ascii ''): '' @
          make_snippet 220 d) \<and>
   (\<forall>d. md_page (doc_metadata d) = None \<longrightarrow>
      source_line 220 d = ascii ''- '' @ get_source d @ ascii '': '' @ make_snippet 220 d) \<and>
   (\<forall>d. make_snippet 220 d =
      (let c = strip (replace_newlines (page_content d)) in
       if length c \<le> 220 then c else take 220 c @ [ELLIPSIS])) \<and>
   str_int (2 + 1) = ascii ''3''"
proof (intro conjI allI impI)
  assume "\<forall>d\<in>set docs. md_page (doc_metadata d) = None \<longrightarrow> \<not> ends_in_digit (get_source d)"
  then show "format_sources docs = spec_format_sources docs"
    by (rule format_sources_retrieved)
next
  fix s
  assume "has_text_suffix s"
  then show "\<not> ends_in_digit s" by (rule text_suffix_no_digit)
next
  show "\<not> ends_in_digit (ascii ''unknown'')"
    by (simp add: ends_in_digit_def is_digit_def ascii_def)
next
  fix d :: document and p
  assume "md_page (doc_metadata d) = Some p"
  then show "source_line 220 d =
        ascii ''- '' @ get_source d @ ascii '' (p.'' @ str_int (p + 1) @ ascii ''): '' @
          make_snippet 220 d"
    by (simp add: source_line_def)
next
  fix d :: document
  assume "md_page (doc_metadata d) = None"
  then show "source_line 220 d = ascii ''- '' @ get_source d @ ascii '': '' @ make_snippet 220 d"
    by (simp add: source_line_def)
next
  fix d :: document
  show "make_snippet 220 d =
      (let c = strip (replace_newlines (page_content d)) in
       if length c \<le> 220 then c else take 220 c @ [ELLIPSIS])"
    by (simp add: make_snippet_def Let_def)
next
  show "str_int (2 + 1) = ascii ''3''"
    by (simp add: str_int_def digits.simps ascii_def)
qed

text \<open>
  Two chunks of \<open>doc.pdf\<close> page 2 and one of \<open>notes.md\<close>: two citation lines; a path with
  the suffix \<open>.MD\<close>; and a content of 221 characters, cut to 220 and the ellipsis.
\<close>

theorem format_sources_listing_witness:
  "format_sources sample_docs =
     ascii ''- doc.pdf (p.3): one two'' @ [10] @ ascii ''- notes.md: z'' \<and>
   spec_format_sources sample_docs = format_sources sample_docs \<and>
   has_text_suffix (ascii ''kb/Notes.MD'') \<and> \<not> ends_in_digit (ascii ''kb/Notes.MD'') \<and>
   make_snippet 220 (mk_doc None None (replicate 221 97)) = replicate 220 97 @ [ELLIPSIS]"
proof -
  have hyp: "\<forall>d\<in>set sample_docs.
       md_page (doc_metadata d) = None \<longrightarrow> \<not> ends_in_digit (get_source d)"
    by (simp add: sample_docs_def mk_doc_def get_source_def ends_in_digit_def is_digit_def
        ascii_def)
  note spec = format_sources_listing[of sample_docs, THEN conjunct1, THEN mp, OF hyp]
  have ts: "has_text_suffix (ascii ''kb/Notes.MD'')"
    by (simp add: has_text_suffix_def TEXT_EXT_def lower_def ascii_def)
  note nd = format_sources_listing[of sample_docs, THEN conjunct2, THEN conjunct1, rule_format,
      OF ts]
  have ev: "format_sources sample_docs =
     ascii ''- doc.pdf (p.3): one two'' @ [10] @ ascii ''- notes.md: z''"
    by (simp add: sample_docs_def listing_eval)
  have sn: "make_snippet 220 (mk_doc None None (replicate 221 97)) = replicate 220 97 @ [ELLIPSIS]"
    by (simp add: make_snippet_def mk_doc_def strip_def replace_newlines_def is_space_def Let_def)
  from ev spec ts nd sn show ?thesis by simp
qed

end
